theory Spec2Isabelle
  imports Complex_Main "HOL-Library.Multiset"
begin

section \<open>Data model\<close>

text \<open>
  The program is one Python function, \<open>preprocess_vehicle_data\<close>, built on pandas.
  A DataFrame is modelled as its column labels and its rows; a row carries its index
  label and one cell per column label, in the order of the labels. Strings are UTF-8
  byte strings, so the Chinese keys of the lookup tables are written byte by byte.
\<close>

type_synonym label = string

text \<open>A \<open>datetime64[ns]\<close> value: nanoseconds since the epoch.\<close>

type_synonym timestamp = int

text \<open>
  A float that is not NaN. The pipeline never computes with these values, it only
  carries them; NaN is the missing-value marker \<open>NA\<close> below.
\<close>

datatype float64 = Finite real | PosInf | NegInf

text \<open>
  A cell as the spreadsheet reader delivers it or as a later step stores it. \<open>NA\<close>
  stands for pandas' missing value (NaN, NaT or None: \<open>isna\<close> is true of exactly
  these).
\<close>

datatype cell = NA | Text string | Number float64 | Stamp timestamp | Flag bool

text \<open>A boolean cell; a column of nothing but booleans has pandas' \<open>bool\<close> dtype.\<close>

fun is_flag :: "cell \<Rightarrow> bool" where
  "is_flag (Flag b) = True"
| "is_flag _ = False"

type_synonym row = "nat \<times> cell list"

record dataframe =
  columns :: "label list"
  rows :: "row list"

text \<open>What \<open>to_parquet(..., index=False)\<close> is handed: the labels and the cells, no index.\<close>

type_synonym table = "label list \<times> cell list list"

text \<open>
  Exceptions. \<open>KeyError\<close> carries the labels that were not found. \<open>NotASeries c\<close>
  stands for the exception raised when \<open>df[c]\<close> selects more than one column, so that
  \<open>Series.map\<close>, \<open>to_datetime\<close> and \<open>to_numeric\<close> are handed a DataFrame.
  \<open>InvalidIndexError\<close> is raised by \<open>concat\<close> on a frame with a repeated label.
  \<open>ValueError\<close> is what \<open>to_datetime\<close> raises on a column it refuses as a whole.
  \<open>LibraryError\<close> is any exception of the spreadsheet reader or the Parquet writer.
\<close>

datatype exn =
    KeyError "label list"
  | NotASeries label
  | InvalidIndexError
  | ValueError string
  | LibraryError string

text \<open>The lines the function prints, one constructor per \<open>print\<close> call of the source.\<close>

datatype msg =
    Searching string
  | ErrNoFiles
  | Found nat
  | WarnSkip string exn
  | ErrNoDataframes
  | Concatenating
  | InitialRecords nat
  | Translating
  | Converting
  | Dropped nat
  | Sorting
  | Saving string
  | Complete
  | FinalRecords nat
  | SavedOk
  | FirstRows
  | Head "row list"

text \<open>
  The external collaborators, as the function calls them:
  \<^item> \<open>os_walk top\<close>: the triples \<open>(root, dirs, files)\<close> that \<open>os.walk(top)\<close> yields;
  \<^item> \<open>read_excel path\<close>: the frame \<open>pd.read_excel\<close> returns, or the exception it raises;
  \<^item> \<open>to_datetime col\<close>: what \<open>pd.to_datetime(col, errors='coerce')\<close> does with the
    column: the exception it raises even so (it refuses strings with different UTC
    offsets in one column), or else the parser it applies to each cell, which gives
    \<open>None\<close> for a cell it cannot parse (the parser depends on the whole column:
    pandas infers a date format from it);
  \<^item> \<open>to_numeric col v\<close>: the number the parser of \<open>pd.to_numeric\<close> gives the cell
    \<open>v\<close> of the column \<open>col\<close>, \<open>None\<close> when it cannot parse it;
  \<^item> \<open>argsort keys\<close>: the sorting routine behind \<open>sort_values\<close> with its default
    \<open>kind\<close>, returning the positions of the keys in sorted order;
  \<^item> \<open>to_parquet path t\<close>: \<open>None\<close> when the file is written, or the exception raised.
\<close>

record env =
  os_walk :: "string \<Rightarrow> (string \<times> string list \<times> string list) list"
  read_excel :: "string \<Rightarrow> exn + dataframe"
  to_datetime :: "cell list \<Rightarrow> exn + (cell \<Rightarrow> timestamp option)"
  to_numeric :: "cell list \<Rightarrow> cell \<Rightarrow> float64 option"
  argsort :: "timestamp list \<Rightarrow> nat list"
  to_parquet :: "string \<Rightarrow> table \<Rightarrow> exn option"

text \<open>
  What one call leaves behind: the lines printed, the file written (if any), and the
  exception that left the function uncaught (if any). The function itself returns
  \<open>None\<close> on every path.
\<close>

record run =
  printed :: "msg list"
  written :: "(string \<times> table) option"
  raised :: "exn option"

section \<open>Discoverer\<close>

definition endswith :: "string \<Rightarrow> string \<Rightarrow> bool" where
  "endswith s suf \<longleftrightarrow> length suf \<le> length s \<and> drop (length s - length suf) s = suf"

text \<open>\<open>os.path.join\<close> of two components (POSIX).\<close>

definition path_join :: "string \<Rightarrow> string \<Rightarrow> string" where
  "path_join a b =
     (if b \<noteq> [] \<and> hd b = CHR ''/'' then b
      else if a = [] \<or> last a = CHR ''/'' then a @ b
      else a @ ''/'' @ b)"

definition discover :: "env \<Rightarrow> string \<Rightarrow> string list" where
  "discover e base_path =
     concat (map (\<lambda>(root, dirs, files).
               map (path_join root) (filter (\<lambda>file. endswith file ''.xlsx'') files))
             (os_walk e base_path))"

section \<open>Loader\<close>

text \<open>
  The \<open>try\<close>/\<open>except Exception\<close> loop: a frame is appended to \<open>df_list\<close>, a failure
  prints the warning with the path and the exception and goes on with the next file.
\<close>

fun read_all :: "env \<Rightarrow> string list \<Rightarrow> msg list \<Rightarrow> dataframe list \<Rightarrow> msg list \<times> dataframe list" where
  "read_all e [] out df_list = (out, df_list)"
| "read_all e (file_path # rest) out df_list =
     (case read_excel e file_path of
        Inr df \<Rightarrow> read_all e rest out (df_list @ [df])
      | Inl ex \<Rightarrow> read_all e rest (out @ [WarnSkip file_path ex]) df_list)"

section \<open>Unifier\<close>

text \<open>The labels in the order of their first appearance.\<close>

fun unique :: "'a list \<Rightarrow> 'a list" where
  "unique [] = []"
| "unique (x # xs) = x # unique (filter (\<lambda>y. y \<noteq> x) xs)"

text \<open>The cell of a row under a label; a label the row does not have gives \<open>NA\<close>.\<close>

definition lookup :: "label list \<Rightarrow> cell list \<Rightarrow> label \<Rightarrow> cell" where
  "lookup cols cells c = (case map_of (zip cols cells) c of None \<Rightarrow> NA | Some v \<Rightarrow> v)"

definition reindex :: "label list \<Rightarrow> label list \<Rightarrow> cell list \<Rightarrow> cell list" where
  "reindex new old cells = map (lookup old cells) new"

text \<open>
  \<open>pd.concat(df_list, ignore_index=True)\<close>: the union of the labels, every row of
  every frame in order, \<open>NA\<close> where a frame lacks a label, and a fresh index.
\<close>

definition concat_frames :: "dataframe list \<Rightarrow> exn + dataframe" where
  "concat_frames df_list =
     (if list_ex (\<lambda>df. \<not> distinct (columns df)) df_list then Inl InvalidIndexError
      else
        let cols = unique (concat (map columns df_list));
            body = concat (map (\<lambda>df. map (\<lambda>r. reindex cols (columns df) (snd r)) (rows df)) df_list)
        in Inr \<lparr>columns = cols, rows = zip [0..<length body] body\<rparr>)"

section \<open>Normalizer\<close>

definition cleaned_columns :: "(label \<times> label) list" where
  "cleaned_columns =
     [(''record_time'', ''record_time''),
      (''vehicle_state'', ''vehicle_state''),
      (''charge_state'', ''charge_state''),
      (''pack_voltage(V)'', ''pack_voltage''),
      (''pack_current(A)'', ''pack_current''),
      (''SOC(%)'', ''soc''),
      (''max_cell_voltage (V)'', ''max_cell_voltage''),
      (''min_cell_voltage (V)'', ''min_cell_voltage''),
      (''max_probe_temperature ('' @ [CHR 0xE2, CHR 0x84, CHR 0x83] @ '')'', ''max_temp''),
      (''min_probe_temperature ('' @ [CHR 0xE2, CHR 0x84, CHR 0x83] @ '')'', ''min_temp'')]"

definition rename_label :: "label \<Rightarrow> label" where
  "rename_label c = (case map_of cleaned_columns c of None \<Rightarrow> c | Some c' \<Rightarrow> c')"

definition rename_columns :: "dataframe \<Rightarrow> dataframe" where
  "rename_columns df = df\<lparr>columns := map rename_label (columns df)\<rparr>"

text \<open>The keys are U+8F66 U+8F86 U+542F U+52A8 and U+7184 U+706B.\<close>

definition vehicle_state_map :: "(string \<times> string) list" where
  "vehicle_state_map =
     [([CHR 0xE8, CHR 0xBD, CHR 0xA6, CHR 0xE8, CHR 0xBE, CHR 0x86,
        CHR 0xE5, CHR 0x90, CHR 0xAF, CHR 0xE5, CHR 0x8A, CHR 0xA8], ''Vehicle Start''),
      ([CHR 0xE7, CHR 0x86, CHR 0x84, CHR 0xE7, CHR 0x81, CHR 0xAB], ''Engine Off'')]"

text \<open>
  The keys are U+672A U+5145 U+7535, U+505C U+8F66 U+5145 U+7535 and
  U+5145 U+7535 U+5B8C U+6210.
\<close>

definition charge_state_map :: "(string \<times> string) list" where
  "charge_state_map =
     [([CHR 0xE6, CHR 0x9C, CHR 0xAA, CHR 0xE5, CHR 0x85, CHR 0x85,
        CHR 0xE7, CHR 0x94, CHR 0xB5], ''Not Charging''),
      ([CHR 0xE5, CHR 0x81, CHR 0x9C, CHR 0xE8, CHR 0xBD, CHR 0xA6,
        CHR 0xE5, CHR 0x85, CHR 0x85, CHR 0xE7, CHR 0x94, CHR 0xB5], ''Parked Charging''),
      ([CHR 0xE5, CHR 0x85, CHR 0x85, CHR 0xE7, CHR 0x94, CHR 0xB5,
        CHR 0xE5, CHR 0xAE, CHR 0x8C, CHR 0xE6, CHR 0x88, CHR 0x90], ''Charging Complete'')]"

text \<open>
  \<open>df[c]\<close>: the column under the label; \<open>KeyError\<close> when no column has it, and a
  DataFrame, on which every caller here raises, when several have it.
\<close>

definition getitem :: "dataframe \<Rightarrow> label \<Rightarrow> exn + cell list" where
  "getitem df c =
     (if count_list (columns df) c = 0 then Inl (KeyError [c])
      else if count_list (columns df) c = 1
        then Inr (map (\<lambda>r. lookup (columns df) (snd r) c) (rows df))
      else Inl (NotASeries c))"

text \<open>
  \<open>df[c] = values\<close>: the cells under the label are replaced, row by row; a new label
  is appended as a new column.
\<close>

definition set_cell :: "label list \<Rightarrow> label \<Rightarrow> cell \<Rightarrow> cell list \<Rightarrow> cell list" where
  "set_cell cols c v cells = map (\<lambda>(l, x). if l = c then v else x) (zip cols cells)"

definition setitem :: "dataframe \<Rightarrow> label \<Rightarrow> cell list \<Rightarrow> dataframe" where
  "setitem df c vals =
     (if c \<in> set (columns df)
      then df\<lparr>rows := map (\<lambda>(r, v). (fst r, set_cell (columns df) c v (snd r))) (zip (rows df) vals)\<rparr>
      else df\<lparr>columns := columns df @ [c],
               rows := map (\<lambda>(r, v). (fst r, snd r @ [v])) (zip (rows df) vals)\<rparr>)"

text \<open>
  \<open>Series.map(d)\<close> with a dictionary: a value that is a key gives the dictionary's
  value, every other value (a string that is no key, a number, a missing value) gives
  NaN.
\<close>

definition map_value :: "(string \<times> string) list \<Rightarrow> cell \<Rightarrow> cell" where
  "map_value d v =
     (case v of
        Text s \<Rightarrow> (case map_of d s of Some t \<Rightarrow> Text t | None \<Rightarrow> NA)
      | _ \<Rightarrow> NA)"

definition series_map :: "(string \<times> string) list \<Rightarrow> cell list \<Rightarrow> cell list" where
  "series_map d col = map (map_value d) col"

definition translate_column :: "label \<Rightarrow> (string \<times> string) list \<Rightarrow> dataframe \<Rightarrow> exn + dataframe" where
  "translate_column c d df =
     (case getitem df c of
        Inl ex \<Rightarrow> Inl ex
      | Inr col \<Rightarrow> Inr (setitem df c (series_map d col)))"

definition translate :: "dataframe \<Rightarrow> exn + dataframe" where
  "translate df =
     (case translate_column ''vehicle_state'' vehicle_state_map df of
        Inl ex \<Rightarrow> Inl ex
      | Inr df' \<Rightarrow> translate_column ''charge_state'' charge_state_map df')"

text \<open>
  \<open>pd.to_datetime(col, errors='coerce')\<close>: what the parser cannot parse becomes the
  missing value; an exception of the call on the whole column is not caught.
\<close>

definition coerce_datetime :: "env \<Rightarrow> cell list \<Rightarrow> exn + cell list" where
  "coerce_datetime e col =
     (case to_datetime e col of
        Inl ex \<Rightarrow> Inl ex
      | Inr parse \<Rightarrow> Inr (map (\<lambda>v. case parse v of Some t \<Rightarrow> Stamp t | None \<Rightarrow> NA) col))"

text \<open>
  \<open>pd.to_numeric(col, errors='coerce')\<close>: a column of booleans already has a numeric
  dtype and is returned as it is; in any other column what the parser cannot parse
  becomes the missing value.
\<close>

definition coerce_numeric :: "env \<Rightarrow> cell list \<Rightarrow> cell list" where
  "coerce_numeric e col =
     (if list_all is_flag col then col
      else map (\<lambda>v. case to_numeric e col v of Some x \<Rightarrow> Number x | None \<Rightarrow> NA) col)"

definition numeric_cols :: "label list" where
  "numeric_cols =
     [''pack_voltage'', ''pack_current'', ''soc'', ''max_cell_voltage'',
      ''min_cell_voltage'', ''max_temp'', ''min_temp'']"

definition convert_datetime :: "env \<Rightarrow> dataframe \<Rightarrow> exn + dataframe" where
  "convert_datetime e df =
     (case getitem df ''record_time'' of
        Inl ex \<Rightarrow> Inl ex
      | Inr col \<Rightarrow>
          (case coerce_datetime e col of
             Inl ex \<Rightarrow> Inl ex
           | Inr vals \<Rightarrow> Inr (setitem df ''record_time'' vals)))"

fun convert_numeric :: "env \<Rightarrow> label list \<Rightarrow> dataframe \<Rightarrow> exn + dataframe" where
  "convert_numeric e [] df = Inr df"
| "convert_numeric e (c # cs) df =
     (case getitem df c of
        Inl ex \<Rightarrow> Inl ex
      | Inr col \<Rightarrow> convert_numeric e cs (setitem df c (coerce_numeric e col)))"

definition convert :: "env \<Rightarrow> dataframe \<Rightarrow> exn + dataframe" where
  "convert e df =
     (case convert_datetime e df of
        Inl ex \<Rightarrow> Inl ex
      | Inr df' \<Rightarrow> convert_numeric e numeric_cols df')"

text \<open>
  \<open>dropna(subset=...)\<close>: \<open>KeyError\<close> with the labels that are no column; otherwise the
  rows with a missing value under a label of the subset are removed.
\<close>

definition has_na :: "label list \<Rightarrow> label list \<Rightarrow> cell list \<Rightarrow> bool" where
  "has_na subs cols cells \<longleftrightarrow> list_ex (\<lambda>(l, x). l \<in> set subs \<and> x = NA) (zip cols cells)"

definition dropna :: "label list \<Rightarrow> dataframe \<Rightarrow> exn + dataframe" where
  "dropna subs df =
     (case filter (\<lambda>c. c \<notin> set (columns df)) subs of
        [] \<Rightarrow> Inr (df\<lparr>rows := filter (\<lambda>r. \<not> has_na subs (columns df) (snd r)) (rows df)\<rparr>)
      | missing \<Rightarrow> Inl (KeyError missing))"

section \<open>Sequencer and sink\<close>

fun stamp_of :: "cell \<Rightarrow> timestamp" where
  "stamp_of (Stamp t) = t"
| "stamp_of _ = 0"

text \<open>
  The positions in sorted order: the positions of the non-missing keys as the sorting
  routine orders them, then the positions of the missing keys (\<open>na_position='last'\<close>).
\<close>

definition nargsort :: "env \<Rightarrow> cell list \<Rightarrow> nat list" where
  "nargsort e col =
     (let idx = [0..<length col];
          non_nan_idx = filter (\<lambda>i. col ! i \<noteq> NA) idx;
          nan_idx = filter (\<lambda>i. col ! i = NA) idx
      in map (\<lambda>j. non_nan_idx ! j) (argsort e (map (\<lambda>i. stamp_of (col ! i)) non_nan_idx))
         @ nan_idx)"

definition sort_values :: "env \<Rightarrow> label \<Rightarrow> dataframe \<Rightarrow> exn + dataframe" where
  "sort_values e by_label df =
     (case getitem df by_label of
        Inl ex \<Rightarrow> Inl ex
      | Inr col \<Rightarrow> Inr (df\<lparr>rows := map (\<lambda>i. rows df ! i) (nargsort e col)\<rparr>))"

definition reset_index :: "dataframe \<Rightarrow> dataframe" where
  "reset_index df = df\<lparr>rows := zip [0..<length (rows df)] (map snd (rows df))\<rparr>"

definition to_table :: "dataframe \<Rightarrow> table" where
  "to_table df = (columns df, map snd (rows df))"

section \<open>The pipeline\<close>

definition abort :: "msg list \<Rightarrow> exn \<Rightarrow> run" where
  "abort out ex = \<lparr>printed = out, written = None, raised = Some ex\<rparr>"

definition halt :: "msg list \<Rightarrow> run" where
  "halt out = \<lparr>printed = out, written = None, raised = None\<rparr>"

definition required :: "label list" where
  "required = ''record_time'' # numeric_cols"

text \<open>Steps 7 to 9 of the source, on the frame whose types have been converted.\<close>

definition finish :: "env \<Rightarrow> string \<Rightarrow> msg list \<Rightarrow> dataframe \<Rightarrow> run" where
  "finish e output_filename out full_df =
     (let initial_rows = length (rows full_df) in
      (case dropna required full_df of
         Inl ex \<Rightarrow> abort out ex
       | Inr df7 \<Rightarrow>
          (let rows_dropped = initial_rows - length (rows df7);
               out7 = out @ (if rows_dropped > 0 then [Dropped rows_dropped] else []) @ [Sorting]
           in (case sort_values e ''record_time'' df7 of
                 Inl ex \<Rightarrow> abort out7 ex
               | Inr df8 \<Rightarrow>
                  (let df9 = reset_index df8;
                       out9 = out7 @ [Saving output_filename]
                   in (case to_parquet e output_filename (to_table df9) of
                         Some ex \<Rightarrow> abort out9 ex
                       | None \<Rightarrow>
                           \<lparr>printed = out9 @ [Complete, FinalRecords (length (rows df9)),
                                               SavedOk, FirstRows, Head (take 5 (rows df9))],
                            written = Some (output_filename, to_table df9),
                            raised = None\<rparr>))))))"

text \<open>Steps 3 to 6 of the source, on the frames that were read.\<close>

definition process :: "env \<Rightarrow> string \<Rightarrow> msg list \<Rightarrow> dataframe list \<Rightarrow> run" where
  "process e output_filename out df_list =
     (let out2 = out @ [Concatenating] in
      (case concat_frames df_list of
         Inl ex \<Rightarrow> abort out2 ex
       | Inr full_df \<Rightarrow>
          (let out3 = out2 @ [InitialRecords (length (rows full_df)), Translating] in
           (case translate (rename_columns full_df) of
              Inl ex \<Rightarrow> abort out3 ex
            | Inr df5 \<Rightarrow>
               (let out5 = out3 @ [Converting] in
                (case convert e df5 of
                   Inl ex \<Rightarrow> abort out5 ex
                 | Inr df6 \<Rightarrow> finish e output_filename out5 df6))))))"

definition preprocess_vehicle_data :: "env \<Rightarrow> string \<Rightarrow> string \<Rightarrow> run" where
  "preprocess_vehicle_data e base_path output_filename =
     (let all_files = discover e base_path;
          out0 = [Searching base_path]
      in if all_files = [] then halt (out0 @ [ErrNoFiles])
         else
           let (out1, df_list) = read_all e all_files (out0 @ [Found (length all_files)]) []
           in if df_list = [] then halt (out1 @ [ErrNoDataframes])
              else process e output_filename out1 df_list)"

section \<open>Vocabulary of the properties\<close>

text \<open>
  A frame is well formed when every row has one cell per label, as every pandas frame
  has.
\<close>

definition wf :: "dataframe \<Rightarrow> bool" where
  "wf df \<longleftrightarrow> list_all (\<lambda>r. length (snd r) = length (columns df)) (rows df)"

definition column :: "dataframe \<Rightarrow> label \<Rightarrow> cell list" where
  "column df c = map (\<lambda>r. lookup (columns df) (snd r) c) (rows df)"

definition tcolumn :: "table \<Rightarrow> label \<Rightarrow> cell list" where
  "tcolumn t c = map (\<lambda>cells. lookup (fst t) cells c) (snd t)"

definition same_shape :: "dataframe \<Rightarrow> dataframe \<Rightarrow> bool" where
  "same_shape df df' \<longleftrightarrow>
     wf df' \<and> columns df' = columns df \<and> length (rows df') = length (rows df)"

fun is_stamp :: "cell \<Rightarrow> bool" where
  "is_stamp (Stamp t) = True"
| "is_stamp _ = False"

fun is_number :: "cell \<Rightarrow> bool" where
  "is_number (Number x) = True"
| "is_number _ = False"

text \<open>The ten labels of the canonical schema, in the order of the rename table.\<close>

definition canonical :: "label list" where
  "canonical = map snd cleaned_columns"

text \<open>
  What a sorting routine owes its caller: the positions it returns are a permutation
  of all positions, and the keys read in that order are ascending. pandas promises
  nothing more of the default \<open>kind\<close> of \<open>sort_values\<close>.
\<close>

definition sorts :: "env \<Rightarrow> bool" where
  "sorts e \<longleftrightarrow>
     (\<forall>keys. mset (argsort e keys) = mset [0..<length keys] \<and>
             sorted (map (\<lambda>i. keys ! i) (argsort e keys)))"

text \<open>The warnings of the loader and the frames it keeps, file by file.\<close>

primrec failures :: "env \<Rightarrow> string list \<Rightarrow> msg list" where
  "failures e [] = []"
| "failures e (p # ps) =
     (case read_excel e p of Inl ex \<Rightarrow> WarnSkip p ex # failures e ps | Inr df \<Rightarrow> failures e ps)"

primrec successes :: "env \<Rightarrow> string list \<Rightarrow> dataframe list" where
  "successes e [] = []"
| "successes e (p # ps) =
     (case read_excel e p of Inl ex \<Rightarrow> successes e ps | Inr df \<Rightarrow> df # successes e ps)"

text \<open>
  The data path of a run without its printing: the frames read, the Normalizer's
  renaming, translation and conversion, and the rows that survive the filter.
\<close>

definition loaded :: "env \<Rightarrow> string \<Rightarrow> dataframe list" where
  "loaded e base_path = snd (read_all e (discover e base_path) [] [])"

definition normalize :: "env \<Rightarrow> dataframe \<Rightarrow> exn + dataframe" where
  "normalize e df =
     (case translate (rename_columns df) of
        Inl ex \<Rightarrow> Inl ex
      | Inr df' \<Rightarrow> convert e df')"

definition surviving :: "env \<Rightarrow> string \<Rightarrow> exn + dataframe" where
  "surviving e base_path =
     (case concat_frames (loaded e base_path) of
        Inl ex \<Rightarrow> Inl ex
      | Inr u \<Rightarrow>
          (case normalize e u of
             Inl ex \<Rightarrow> Inl ex
           | Inr typed \<Rightarrow> dropna required typed))"

section \<open>A concrete installation\<close>

text \<open>
  A small directory tree with one vehicle per case, and the library as it behaves on
  the cells of these files: the parsers accept the cells that already are timestamps
  or numbers and no text, \<open>to_datetime\<close> refuses a column of strings with two
  different UTC offsets, and the sorting routine is numpy's quicksort.
\<close>

text \<open>The raw value for "vehicle started": U+8F66 U+8F86 U+542F U+52A8.\<close>

definition started :: string where
  "started = [CHR 0xE8, CHR 0xBD, CHR 0xA6, CHR 0xE8, CHR 0xBE, CHR 0x86,
              CHR 0xE5, CHR 0x90, CHR 0xAF, CHR 0xE5, CHR 0x8A, CHR 0xA8]"

text \<open>The UTC offset that ends a string such as \<open>2024-03-01 08:00:00+01:00\<close>.\<close>

definition utc_offset :: "cell \<Rightarrow> string option" where
  "utc_offset v =
     (case v of
        Text s \<Rightarrow>
          (let n = length s in
           if 6 \<le> n \<and> (s ! (n - 6) = CHR ''+'' \<or> s ! (n - 6) = CHR ''-'')
                \<and> s ! (n - 3) = CHR '':''
           then Some (drop (n - 6) s) else None)
      | _ \<Rightarrow> None)"

definition plain_datetime :: "cell list \<Rightarrow> exn + (cell \<Rightarrow> timestamp option)" where
  "plain_datetime col =
     (if 1 < length (remdups (List.map_filter utc_offset col))
      then Inl (ValueError ''Mixed timezones detected'')
      else Inr (\<lambda>v. case v of Stamp t \<Rightarrow> Some t | _ \<Rightarrow> None))"

definition plain_numeric :: "cell list \<Rightarrow> cell \<Rightarrow> float64 option" where
  "plain_numeric col v = (case v of Number x \<Rightarrow> Some x | _ \<Rightarrow> None)"

text \<open>Insertion sort on the keys paired with their positions.\<close>

definition stable_argsort :: "timestamp list \<Rightarrow> nat list" where
  "stable_argsort keys = map snd (sort_key fst (zip keys [0..<length keys]))"

text \<open>
  numpy's \<open>argsort\<close> of kind \<open>quicksort\<close>, on the key lists of these files. Up to
  seventeen keys it is an insertion sort. On twenty equal keys it first partitions
  around the median of the keys at positions 0, 9 and 19: the pivot goes to position
  18, the two scans stop at every key and exchange positions 1 and 17, 2 and 16, up
  to 8 and 10, the pivot comes back to position 9, and the insertion sorts of the two
  parts move nothing. No other list of eighteen or more keys occurs in these files;
  on such a list the definition falls back to the insertion sort, which is not what
  numpy does there.
\<close>

definition quick_argsort :: "timestamp list \<Rightarrow> nat list" where
  "quick_argsort keys =
     (if length keys = 20 \<and> list_all (\<lambda>k. k = hd keys) keys
      then 0 # rev [1..<18] @ [18, 19]
      else stable_argsort keys)"

definition source_columns :: "label list" where
  "source_columns = map fst cleaned_columns"

definition reading :: "cell \<Rightarrow> cell \<Rightarrow> cell \<Rightarrow> cell \<Rightarrow> cell list" where
  "reading t vs cs pv =
     [t, vs, cs, pv, Number (Finite 12), Number (Finite 80), Number (Finite 4),
      Number (Finite 3), Number (Finite 25), Number (Finite 20)]"

text \<open>Three rows, all with valid required fields.\<close>

definition trip :: dataframe where
  "trip =
     \<lparr>columns = source_columns,
      rows = [(0, reading (Stamp 300) (Text started) (Text ''idle'') (Number (Finite 350))),
              (1, reading (Stamp 100) (Text ''crank'') NA (Number (Finite 351))),
              (2, reading (Stamp 200) NA NA (Number (Finite 352)))]\<rparr>"

text \<open>
  Five rows, two of them with a \<open>pack_voltage\<close> that is no number; the three others
  include two with the same \<open>record_time\<close>.
\<close>

definition commute :: dataframe where
  "commute =
     \<lparr>columns = source_columns,
      rows = [(0, reading (Stamp 300) (Text started) (Text ''idle'') (Number (Finite 350))),
              (1, reading (Stamp 100) (Text ''crank'') NA (Text ''n/a'')),
              (2, reading (Stamp 100) NA NA (Number (Finite 351))),
              (3, reading (Text ''yesterday'') (Text started) NA (Text ''--'')),
              (4, reading (Stamp 100) (Text ''crank'') NA (Number (Finite 353)))]\<rparr>"

text \<open>One row, and a column that the rename table does not know.\<close>

definition tour :: dataframe where
  "tour =
     \<lparr>columns = source_columns @ [''odometer(km)''],
      rows = [(0, reading (Stamp 100) (Text started) NA (Number (Finite 350))
                  @ [Number (Finite 42)])]\<rparr>"

text \<open>One row, without \<open>charge_state\<close> and most of the numeric columns.\<close>

definition shed :: dataframe where
  "shed =
     \<lparr>columns = [''record_time'', ''vehicle_state'', ''pack_voltage(V)''],
      rows = [(0, [Stamp 100, Text started, Number (Finite 350)])]\<rparr>"

text \<open>Two rows whose \<open>pack_voltage\<close> cells are booleans.\<close>

definition flags :: dataframe where
  "flags =
     \<lparr>columns = source_columns,
      rows = [(0, reading (Stamp 200) NA NA (Flag True)),
              (1, reading (Stamp 100) NA NA (Flag False))]\<rparr>"

text \<open>Twenty rows with one and the same \<open>record_time\<close>, numbered by their voltage.\<close>

definition convoy :: dataframe where
  "convoy =
     \<lparr>columns = source_columns,
      rows = map (\<lambda>i. (i, reading (Stamp 100) NA NA (Number (Finite (real (i + 1))))))
               [0..<20]\<rparr>"

text \<open>Two rows whose \<open>record_time\<close> cells are strings with different UTC offsets.\<close>

definition zones :: dataframe where
  "zones =
     \<lparr>columns = source_columns,
      rows = [(0, reading (Text ''2024-03-01 08:00:00+01:00'') NA NA (Number (Finite 350))),
              (1, reading (Text ''2024-03-01 08:00:00+02:00'') NA NA (Number (Finite 351)))]\<rparr>"

text \<open>One row of a file that has both \<open>pack_voltage(V)\<close> and \<open>pack_voltage\<close>.\<close>

definition twice :: dataframe where
  "twice =
     \<lparr>columns = source_columns @ [''pack_voltage''],
      rows = [(0, reading (Stamp 100) NA NA (Number (Finite 350)) @ [Number (Finite 351)])]\<rparr>"

definition garage :: env where
  "garage =
     \<lparr>os_walk = (\<lambda>top.
         if top = ''Data/Vehicle 1'' then
           [(''Data/Vehicle 1'', [''March''], [''notes.txt'']),
            (''Data/Vehicle 1/March'', [], [''day1.xlsx'', ''day2.xlsx''])]
         else if top = ''Data/Vehicle 2'' then [(''Data/Vehicle 2'', [], [''day1.xlsx''])]
         else if top = ''Data/Vehicle 3'' then [(''Data/Vehicle 3'', [], [''day1.xlsx''])]
         else if top = ''Data/Vehicle 4'' then [(''Data/Vehicle 4'', [], [''day1.xlsx''])]
         else if top = ''Data/Vehicle 5'' then [(''Data/Vehicle 5'', [], [''broken.xlsx''])]
         else if top = ''Data/Vehicle 6'' then [(''Data/Vehicle 6'', [], [''notes.txt''])]
         else if top = ''Data/Vehicle 7'' then [(''Data/Vehicle 7'', [], [''day1.xlsx''])]
         else if top = ''Data/Vehicle 8'' then [(''Data/Vehicle 8'', [], [''day1.xlsx''])]
         else if top = ''Data/Vehicle 9'' then [(''Data/Vehicle 9'', [], [''day1.xlsx''])]
         else if top = ''Data/Vehicle 10'' then [(''Data/Vehicle 10'', [], [''day1.xlsx''])]
         else []),
      read_excel = (\<lambda>p.
         if p = ''Data/Vehicle 1/March/day1.xlsx'' then Inr trip
         else if p = ''Data/Vehicle 2/day1.xlsx'' then Inr commute
         else if p = ''Data/Vehicle 3/day1.xlsx'' then Inr tour
         else if p = ''Data/Vehicle 4/day1.xlsx'' then Inr shed
         else if p = ''Data/Vehicle 7/day1.xlsx'' then Inr flags
         else if p = ''Data/Vehicle 8/day1.xlsx'' then Inr convoy
         else if p = ''Data/Vehicle 9/day1.xlsx'' then Inr zones
         else if p = ''Data/Vehicle 10/day1.xlsx'' then Inr twice
         else Inl (LibraryError ''File is not a zip file'')),
      to_datetime = plain_datetime,
      to_numeric = plain_numeric,
      argsort = quick_argsort,
      to_parquet = (\<lambda>p t. None)\<rparr>"

definition trip_table :: table where
  "trip_table =
     (canonical,
      [reading (Stamp 100) NA NA (Number (Finite 351)),
       reading (Stamp 200) NA NA (Number (Finite 352)),
       reading (Stamp 300) (Text ''Vehicle Start'') NA (Number (Finite 350))])"

definition commute_table :: table where
  "commute_table =
     (canonical,
      [reading (Stamp 100) NA NA (Number (Finite 351)),
       reading (Stamp 100) NA NA (Number (Finite 353)),
       reading (Stamp 300) (Text ''Vehicle Start'') NA (Number (Finite 350))])"

definition flags_table :: table where
  "flags_table =
     (canonical,
      [reading (Stamp 100) NA NA (Flag False),
       reading (Stamp 200) NA NA (Flag True)])"

text \<open>The rows of \<open>convoy\<close> in the order in which the quicksort returns them.\<close>

definition convoy_table :: table where
  "convoy_table =
     (canonical,
      map (\<lambda>i. reading (Stamp 100) NA NA (Number (Finite (real (i + 1)))))
        (0 # rev [1..<18] @ [18, 19]))"

definition tour_table :: table where
  "tour_table =
     (canonical @ [''odometer(km)''],
      [reading (Stamp 100) (Text ''Vehicle Start'') NA (Number (Finite 350))
         @ [Number (Finite 42)]])"

text \<open>A converted frame: the first row has no state at all, the second no voltage.\<close>

definition logbook :: dataframe where
  "logbook =
     \<lparr>columns = canonical,
      rows = [(0, reading (Stamp 300) NA NA (Number (Finite 350))),
              (1, reading (Stamp 100) (Text ''Vehicle Start'') (Text ''Not Charging'') NA)]\<rparr>"


section \<open>Lemmas about the stages\<close>

lemma read_all_acc:
  "read_all e ps out dfs = (out @ fst (read_all e ps [] []), dfs @ snd (read_all e ps [] []))"
proof (induction ps arbitrary: out dfs)
  case Nil
  then show ?case by simp
next
  case (Cons p ps)
  show ?case
  proof (cases "read_excel e p")
    case (Inl ex)
    then show ?thesis
      using Cons.IH [of "out @ [WarnSkip p ex]" dfs] Cons.IH [of "[WarnSkip p ex]" "[]"]
      by simp
  next
    case (Inr df)
    then show ?thesis
      using Cons.IH [of out "dfs @ [df]"] Cons.IH [of "[]" "[df]"]
      by simp
  qed
qed

lemma lookup_set_cell:
  "length cells = length cols \<Longrightarrow> c \<in> set cols \<Longrightarrow>
   lookup cols (set_cell cols c v cells) c' = (if c' = c then v else lookup cols cells c')"
proof (induction cols arbitrary: cells)
  case Nil
  then show ?case by simp
next
  case (Cons l ls)
  then obtain x xs where cells: "cells = x # xs" and len: "length xs = length ls"
    by (cases cells) auto
  show ?case
  proof (cases "c \<in> set ls")
    case True
    with Cons.IH [OF len] show ?thesis
      by (auto simp: cells lookup_def set_cell_def)
  next
    case False
    with Cons.prems have lc: "l = c" by simp
    have other: "c' \<noteq> c \<Longrightarrow> map_of (zip ls (map (\<lambda>(l, x). if l = c then v else x) (zip ls xs))) c' = map_of (zip ls xs) c'" for c'
      using len
    proof (induction ls arbitrary: xs)
      case Nil
      then show ?case by simp
    next
      case (Cons a as)
      then obtain y ys where "xs = y # ys" "length ys = length as" by (cases xs) auto
      with Cons show ?case by auto
    qed
    show ?thesis
      using other by (auto simp: cells lookup_def set_cell_def lc)
  qed
qed

lemma length_set_cell:
  "length cells = length cols \<Longrightarrow> length (set_cell cols c v cells) = length cols"
  by (simp add: set_cell_def)

lemma getitem_Inr:
  "getitem df c = Inr col \<longleftrightarrow> count_list (columns df) c = 1 \<and> col = column df c"
  by (auto simp: getitem_def column_def)

lemma count_list_1_mem: "count_list xs c = 1 \<Longrightarrow> c \<in> set xs"
  by (metis count_list_0_iff zero_neq_one)

lemma length_column [simp]: "length (column df c) = length (rows df)"
  by (simp add: column_def)

lemma columns_setitem:
  "c \<in> set (columns df) \<Longrightarrow> columns (setitem df c vals) = columns df"
  by (simp add: setitem_def)

lemma length_rows_setitem:
  "length vals = length (rows df) \<Longrightarrow> length (rows (setitem df c vals)) = length (rows df)"
  by (simp add: setitem_def)

lemma wf_setitem:
  "wf df \<Longrightarrow> c \<in> set (columns df) \<Longrightarrow> wf (setitem df c vals)"
  by (auto simp: wf_def setitem_def list_all_iff length_set_cell dest!: set_zip_leftD)

lemma column_setitem:
  assumes "wf df" "c \<in> set (columns df)" "length vals = length (rows df)"
  shows "column (setitem df c vals) c' = (if c' = c then vals else column df c')"
proof (rule nth_equalityI)
  show "length (column (setitem df c vals) c') = length (if c' = c then vals else column df c')"
    using assms(3) by (simp add: length_rows_setitem)
next
  fix i assume "i < length (column (setitem df c vals) c')"
  then have i: "i < length (rows df)"
    using assms(3) by (simp add: length_rows_setitem)
  then have "rows df ! i \<in> set (rows df)" by simp
  then have len: "length (snd (rows df ! i)) = length (columns df)"
    using assms(1) by (simp add: wf_def list_all_iff)
  have "column (setitem df c vals) c' ! i =
      lookup (columns df) (set_cell (columns df) c (vals ! i) (snd (rows df ! i))) c'"
    using i assms(2,3) by (simp add: column_def setitem_def)
  also have "\<dots> = (if c' = c then vals ! i else lookup (columns df) (snd (rows df ! i)) c')"
    by (rule lookup_set_cell [OF len assms(2)])
  also have "\<dots> = (if c' = c then vals else column df c') ! i"
    using i by (simp add: column_def)
  finally show "column (setitem df c vals) c' ! i = (if c' = c then vals else column df c') ! i" .
qed

lemma tcolumn_to_table: "tcolumn (to_table df) c = column df c"
  by (simp add: tcolumn_def to_table_def column_def comp_def)

lemma wf_concat_frames: "concat_frames dfs = Inr u \<Longrightarrow> wf u"
  by (auto simp: concat_frames_def wf_def list_all_iff reindex_def Let_def
      split: if_splits dest!: set_zip_rightD)

lemma wf_rename_columns [simp]: "wf (rename_columns df) = wf df"
  by (simp add: wf_def rename_columns_def)

lemma rows_rename_columns [simp]: "rows (rename_columns df) = rows df"
  by (simp add: rename_columns_def)

lemma columns_rename_columns [simp]: "columns (rename_columns df) = map rename_label (columns df)"
  by (simp add: rename_columns_def)

lemma translate_column_Inr:
  "translate_column c d df = Inr df' \<longleftrightarrow>
     count_list (columns df) c = 1 \<and> df' = setitem df c (series_map d (column df c))"
  by (auto simp: translate_column_def getitem_def column_def split: sum.splits if_splits)

lemma length_series_map [simp]: "length (series_map d col) = length col"
  by (simp add: series_map_def)

lemma coerce_datetime_Inr:
  assumes "coerce_datetime e col = Inr vals"
  shows "length vals = length col" and "\<And>v. v \<in> set vals \<Longrightarrow> v = NA \<or> is_stamp v"
  using assms by (auto simp: coerce_datetime_def split: sum.splits option.splits)

lemma length_coerce_numeric [simp]: "length (coerce_numeric e col) = length col"
  by (simp add: coerce_numeric_def)

lemma same_shape_setitem:
  "wf df \<Longrightarrow> count_list (columns df) c = 1 \<Longrightarrow> length vals = length (rows df) \<Longrightarrow>
   same_shape df (setitem df c vals)"
  by (simp add: same_shape_def wf_setitem columns_setitem length_rows_setitem count_list_1_mem)

lemma same_shape_trans: "same_shape a b \<Longrightarrow> same_shape b c \<Longrightarrow> same_shape a c"
  by (simp add: same_shape_def)

lemma translate_column_shape:
  assumes "wf df" "translate_column c d df = Inr df'"
  shows "same_shape df df'"
    and "column df' c' = (if c' = c then series_map d (column df c) else column df c')"
  using assms
  by (auto simp: translate_column_Inr same_shape_setitem column_setitem count_list_1_mem)

lemma translate_shape:
  assumes "wf df" "translate df = Inr df'"
  shows "same_shape df df'"
    and "count_list (columns df) ''vehicle_state'' = 1"
    and "count_list (columns df) ''charge_state'' = 1"
    and "c' \<noteq> ''vehicle_state'' \<Longrightarrow> c' \<noteq> ''charge_state'' \<Longrightarrow> column df' c' = column df c'"
proof -
  from assms(2) obtain d1 where
    d1: "translate_column ''vehicle_state'' vehicle_state_map df = Inr d1" and
    d2: "translate_column ''charge_state'' charge_state_map d1 = Inr df'"
    by (auto simp: translate_def split: sum.splits)
  have s1: "same_shape df d1" using translate_column_shape(1) [OF assms(1) d1] .
  then have wf1: "wf d1" by (simp add: same_shape_def)
  have s2: "same_shape d1 df'" using translate_column_shape(1) [OF wf1 d2] .
  show "same_shape df df'" using s1 s2 by (rule same_shape_trans)
  show "count_list (columns df) ''vehicle_state'' = 1"
    using d1 by (simp add: translate_column_Inr)
  show "count_list (columns df) ''charge_state'' = 1"
    using d2 s1 by (simp add: translate_column_Inr same_shape_def)
  show "column df' c' = column df c'" if "c' \<noteq> ''vehicle_state''" "c' \<noteq> ''charge_state''"
    using translate_column_shape(2) [OF assms(1) d1, of c']
      translate_column_shape(2) [OF wf1 d2, of c'] that by simp
qed

lemma convert_datetime_Inr:
  "convert_datetime e df = Inr df' \<longleftrightarrow>
     count_list (columns df) ''record_time'' = 1 \<and>
     (\<exists>vals. coerce_datetime e (column df ''record_time'') = Inr vals \<and>
             df' = setitem df ''record_time'' vals)"
  by (auto simp: convert_datetime_def getitem_def column_def split: sum.splits if_splits)

lemma convert_numeric_Inr:
  assumes "wf df" "distinct cs" "convert_numeric e cs df = Inr df'"
  shows "same_shape df df' \<and> (\<forall>c\<in>set cs. count_list (columns df) c = 1) \<and>
         (\<forall>c. column df' c = (if c \<in> set cs then coerce_numeric e (column df c) else column df c))"
  using assms
proof (induction cs arbitrary: df)
  case Nil
  then show ?case by (simp add: same_shape_def)
next
  case (Cons a cs)
  let ?d1 = "setitem df a (coerce_numeric e (column df a))"
  from Cons.prems(3) have cnt: "count_list (columns df) a = 1"
    and rest: "convert_numeric e cs ?d1 = Inr df'"
    by (auto simp: getitem_Inr split: sum.splits)
  have s1: "same_shape df ?d1"
    using Cons.prems(1) cnt by (simp add: same_shape_setitem)
  then have wf1: "wf ?d1" by (simp add: same_shape_def)
  from Cons.prems(2) have dcs: "distinct cs" and a: "a \<notin> set cs" by auto
  note IH = Cons.IH [OF wf1 dcs rest]
  have col1: "column ?d1 c = (if c = a then coerce_numeric e (column df a) else column df c)" for c
    using Cons.prems(1) cnt by (simp add: column_setitem count_list_1_mem)
  have "same_shape df df'" using s1 IH by (blast intro: same_shape_trans)
  moreover have "\<forall>c\<in>set (a # cs). count_list (columns df) c = 1"
    using cnt IH s1 by (simp add: same_shape_def)
  moreover have "\<forall>c. column df' c = (if c \<in> set (a # cs) then coerce_numeric e (column df c) else column df c)"
    using IH col1 a by auto
  ultimately show ?case by blast
qed

lemma convert_numeric_total:
  assumes "wf df" "\<forall>c\<in>set cs. count_list (columns df) c = 1"
  shows "\<exists>df'. convert_numeric e cs df = Inr df'"
  using assms
proof (induction cs arbitrary: df)
  case Nil
  then show ?case by simp
next
  case (Cons a cs)
  let ?d1 = "setitem df a (coerce_numeric e (column df a))"
  have cnt: "count_list (columns df) a = 1" using Cons.prems(2) by simp
  have s1: "same_shape df ?d1"
    using Cons.prems(1) cnt by (simp add: same_shape_setitem)
  then have "wf ?d1" "\<forall>c\<in>set cs. count_list (columns ?d1) c = 1"
    using Cons.prems(2) by (simp_all add: same_shape_def)
  from Cons.IH [OF this] obtain df' where "convert_numeric e cs ?d1 = Inr df'" ..
  then show ?case using cnt by (simp add: getitem_def column_def)
qed

lemma distinct_required: "distinct required"
  by (simp add: required_def numeric_cols_def)

lemma convert_Inr:
  assumes "wf df" "convert e df = Inr df'"
  shows "same_shape df df'"
    and "\<forall>c\<in>set required. count_list (columns df) c = 1"
    and "coerce_datetime e (column df ''record_time'') = Inr (column df' ''record_time'')"
    and "c \<in> set numeric_cols \<Longrightarrow> column df' c = coerce_numeric e (column df c)"
    and "c \<notin> set required \<Longrightarrow> column df' c = column df c"
proof -
  from assms(2) obtain d1 where
    d1: "convert_datetime e df = Inr d1" and d2: "convert_numeric e numeric_cols d1 = Inr df'"
    by (auto simp: convert_def split: sum.splits)
  from d1 obtain vals where
    cnt: "count_list (columns df) ''record_time'' = 1" and
    vals: "coerce_datetime e (column df ''record_time'') = Inr vals" and
    d1_eq: "d1 = setitem df ''record_time'' vals"
    by (auto simp: convert_datetime_Inr)
  have len: "length vals = length (rows df)"
    using coerce_datetime_Inr(1) [OF vals] by simp
  have s1: "same_shape df d1"
    unfolding d1_eq using assms(1) cnt len by (simp add: same_shape_setitem)
  then have wf1: "wf d1" by (simp add: same_shape_def)
  have col1: "column d1 c = (if c = ''record_time'' then vals else column df c)" for c
    unfolding d1_eq using assms(1) cnt len by (simp add: column_setitem count_list_1_mem)
  have dn: "distinct numeric_cols" "''record_time'' \<notin> set numeric_cols"
    using distinct_required by (simp_all add: required_def)
  note N = convert_numeric_Inr [OF wf1 dn(1) d2]
  show "same_shape df df'" using s1 N by (blast intro: same_shape_trans)
  show "\<forall>c\<in>set required. count_list (columns df) c = 1"
    using cnt N s1 by (simp add: required_def same_shape_def)
  show "coerce_datetime e (column df ''record_time'') = Inr (column df' ''record_time'')"
    using N dn(2) col1 vals by simp
  show "column df' c = coerce_numeric e (column df c)" if "c \<in> set numeric_cols"
    using N dn(2) col1 that by auto
  show "column df' c = column df c" if "c \<notin> set required"
    using N col1 that by (auto simp: required_def)
qed


lemma dropna_Inr:
  "dropna subs df = Inr df' \<longleftrightarrow>
     set subs \<subseteq> set (columns df) \<and>
     df' = df\<lparr>rows := filter (\<lambda>r. \<not> has_na subs (columns df) (snd r)) (rows df)\<rparr>"
proof (cases "filter (\<lambda>c. c \<notin> set (columns df)) subs")
  case Nil
  then have "set subs \<subseteq> set (columns df)" by (auto simp: filter_empty_conv)
  with Nil show ?thesis by (auto simp: dropna_def)
next
  case (Cons m ms)
  then have "m \<in> set (filter (\<lambda>c. c \<notin> set (columns df)) subs)" by simp
  then have "\<not> set subs \<subseteq> set (columns df)" by auto
  with Cons show ?thesis by (simp add: dropna_def)
qed

lemma sort_values_Inr:
  "sort_values e b df = Inr df' \<longleftrightarrow>
     count_list (columns df) b = 1 \<and>
     df' = df\<lparr>rows := map (\<lambda>i. rows df ! i) (nargsort e (column df b))\<rparr>"
  by (auto simp: sort_values_def getitem_def column_def split: sum.splits if_splits)

lemma sorts_set: "sorts e \<Longrightarrow> set (argsort e keys) = {0..<length keys}"
  by (metis sorts_def mset_eq_setD set_upt)

lemma nargsort_no_na:
  assumes "sorts e" "NA \<notin> set col"
  shows "nargsort e col = argsort e (map stamp_of col)"
proof -
  have nn: "\<And>i. i < length col \<Longrightarrow> col ! i \<noteq> NA"
    using assms(2) nth_mem by metis
  have f1: "filter (\<lambda>i. col ! i \<noteq> NA) [0..<length col] = [0..<length col]"
    using nn by (simp add: filter_id_conv)
  have f2: "filter (\<lambda>i. col ! i = NA) [0..<length col] = []"
    using nn by (simp add: filter_empty_conv)
  have k: "map (\<lambda>i. stamp_of (col ! i)) [0..<length col] = map stamp_of col"
    by (rule nth_equalityI) simp_all
  have "set (argsort e (map stamp_of col)) = {0..<length col}"
    using sorts_set [OF assms(1), of "map stamp_of col"] by simp
  then have "map (\<lambda>j. [0..<length col] ! j) (argsort e (map stamp_of col)) = argsort e (map stamp_of col)"
    by (intro map_idI) simp
  then show ?thesis
    by (simp add: nargsort_def Let_def f1 f2 k)
qed

lemma mset_map_nth_perm:
  assumes "mset p = mset [0..<length xs]"
  shows "mset (map (\<lambda>i. xs ! i) p) = mset xs"
proof -
  have "mset (map (\<lambda>i. xs ! i) p) = image_mset (\<lambda>i. xs ! i) (mset p)" by simp
  also have "\<dots> = mset (map (\<lambda>i. xs ! i) [0..<length xs])" using assms by simp
  also have "\<dots> = mset xs" by (simp add: map_nth)
  finally show ?thesis .
qed

lemma no_na_lookup:
  assumes "length cells = length cols" "c \<in> set cols" "c \<in> set subs"
    "\<not> has_na subs cols cells"
  shows "lookup cols cells c \<noteq> NA"
proof -
  from assms(1,2) have "c \<in> fst ` set (zip cols cells)"
    by (simp add: map_fst_zip flip: set_map)
  then obtain x where x: "map_of (zip cols cells) c = Some x"
    by (metis map_of_eq_None_iff not_Some_eq)
  then have "(c, x) \<in> set (zip cols cells)" by (rule map_of_SomeD)
  with assms(3,4) have "x \<noteq> NA" by (auto simp: has_na_def list_ex_iff)
  with x show ?thesis by (simp add: lookup_def)
qed

lemma coerce_numeric_cells:
  "(list_all is_flag col \<and> coerce_numeric e col = col) \<or>
   (\<not> list_all is_flag col \<and> (\<forall>v\<in>set (coerce_numeric e col). v = NA \<or> is_number v))"
  by (auto simp: coerce_numeric_def split: option.splits)

lemma lookup_in_column: "r \<in> set (rows df) \<Longrightarrow> lookup (columns df) (snd r) c \<in> set (column df c)"
  by (auto simp: column_def)

lemma process_written:
  assumes "written (process e f out dfs) = Some w"
  shows "\<exists>u d5 d6 d7 d8. concat_frames dfs = Inr u \<and> translate (rename_columns u) = Inr d5 \<and>
           convert e d5 = Inr d6 \<and> dropna required d6 = Inr d7 \<and>
           sort_values e ''record_time'' d7 = Inr d8 \<and>
           to_parquet e f (to_table (reset_index d8)) = None \<and>
           w = (f, to_table (reset_index d8))"
  using assms
  by (auto simp: process_def finish_def abort_def Let_def split: sum.splits option.splits)

lemma process_raised:
  "raised (process e f out dfs) = None \<longleftrightarrow> written (process e f out dfs) \<noteq> None"
  by (auto simp: process_def finish_def abort_def Let_def split: sum.splits option.splits)

lemma preprocess_written:
  assumes "written (preprocess_vehicle_data e b f) = Some w"
  shows "\<exists>out. loaded e b \<noteq> [] \<and> written (process e f out (loaded e b)) = Some w"
proof -
  have snd_eq: "snd (read_all e ps out []) = snd (read_all e ps [] [])" for ps out
    using read_all_acc [of e ps out "[]"] by simp
  show ?thesis
    using assms snd_eq [of "discover e b" "[Searching b, Found (length (discover e b))]"]
    by (auto simp: preprocess_vehicle_data_def halt_def loaded_def Let_def
        split: if_splits prod.splits)
qed

lemma stages:
  assumes "written (preprocess_vehicle_data e b f) = Some w"
  shows "\<exists>u d5 d6 d7 d8. concat_frames (loaded e b) = Inr u \<and> translate (rename_columns u) = Inr d5 \<and>
           convert e d5 = Inr d6 \<and> dropna required d6 = Inr d7 \<and>
           sort_values e ''record_time'' d7 = Inr d8 \<and>
           to_parquet e f (to_table (reset_index d8)) = None \<and>
           w = (f, to_table (reset_index d8))"
  using preprocess_written [OF assms] process_written by blast

lemma to_table_reset_index [simp]: "to_table (reset_index df) = to_table df"
  by (simp add: to_table_def reset_index_def)

lemma survivors:
  assumes wf5: "wf d5" and c: "convert e d5 = Inr d6" and d: "dropna required d6 = Inr d7"
    and r: "r \<in> set (rows d7)"
  shows "is_stamp (lookup (columns d7) (snd r) ''record_time'')"
    and "c' \<in> set numeric_cols \<Longrightarrow>
           (if list_all is_flag (column d5 c') then is_flag (lookup (columns d7) (snd r) c')
            else is_number (lookup (columns d7) (snd r) c'))"
proof -
  note C = convert_Inr [OF wf5 c]
  have wf6: "wf d6" using C(1) by (simp add: same_shape_def)
  from d have sub: "set required \<subseteq> set (columns d6)"
    and d7: "d7 = d6\<lparr>rows := filter (\<lambda>r. \<not> has_na required (columns d6) (snd r)) (rows d6)\<rparr>"
    by (simp_all add: dropna_Inr)
  from r d7 have r6: "r \<in> set (rows d6)" and nna: "\<not> has_na required (columns d6) (snd r)"
    by simp_all
  have len: "length (snd r) = length (columns d6)"
    using wf6 r6 by (simp add: wf_def list_all_iff)
  have cols: "columns d7 = columns d6" by (simp add: d7)
  have nn: "lookup (columns d6) (snd r) c \<noteq> NA" if "c \<in> set required" for c
    using no_na_lookup [OF len _ that nna] sub that by blast
  have "lookup (columns d6) (snd r) ''record_time'' \<in> set (column d6 ''record_time'')"
    using lookup_in_column [OF r6] .
  then have "lookup (columns d6) (snd r) ''record_time'' = NA \<or>
      is_stamp (lookup (columns d6) (snd r) ''record_time'')"
    using coerce_datetime_Inr(2) [OF C(3)] by blast
  then show "is_stamp (lookup (columns d7) (snd r) ''record_time'')"
    using nn [of "''record_time''"] by (auto simp: required_def cols)
  show "(if list_all is_flag (column d5 c') then is_flag (lookup (columns d7) (snd r) c')
            else is_number (lookup (columns d7) (snd r) c'))" if "c' \<in> set numeric_cols"
  proof -
    have mem: "lookup (columns d6) (snd r) c' \<in> set (coerce_numeric e (column d5 c'))"
      using lookup_in_column [OF r6] C(4) [OF that] by metis
    have nn': "lookup (columns d6) (snd r) c' \<noteq> NA"
      using nn [of c'] that by (simp add: required_def)
    from coerce_numeric_cells [of "column d5 c'" e] show ?thesis
    proof
      assume "list_all is_flag (column d5 c') \<and> coerce_numeric e (column d5 c') = column d5 c'"
      with mem show ?thesis by (auto simp: list_all_iff cols)
    next
      assume "\<not> list_all is_flag (column d5 c') \<and>
        (\<forall>v\<in>set (coerce_numeric e (column d5 c')). v = NA \<or> is_number v)"
      with mem nn' show ?thesis by (auto simp: cols)
    qed
  qed
qed

lemma sorted_rows:
  assumes "sorts e" "NA \<notin> set (column d7 b)" "sort_values e b d7 = Inr d8"
  shows "rows d8 = map (\<lambda>i. rows d7 ! i) (argsort e (map stamp_of (column d7 b)))"
    and "columns d8 = columns d7"
    and "mset (rows d8) = mset (rows d7)"
proof -
  from assms(3) have d8: "d8 = d7\<lparr>rows := map (\<lambda>i. rows d7 ! i) (nargsort e (column d7 b))\<rparr>"
    by (simp add: sort_values_Inr)
  show 1: "rows d8 = map (\<lambda>i. rows d7 ! i) (argsort e (map stamp_of (column d7 b)))"
    by (simp add: d8 nargsort_no_na [OF assms(1,2)])
  show "columns d8 = columns d7" by (simp add: d8)
  have "mset (argsort e (map stamp_of (column d7 b))) = mset [0..<length (rows d7)]"
    using assms(1) by (simp add: sorts_def)
  then show "mset (rows d8) = mset (rows d7)"
    unfolding 1 by (rule mset_map_nth_perm)
qed

lemma canonical_eq: "canonical = ''record_time'' # ''vehicle_state'' # ''charge_state'' # numeric_cols"
  by (simp add: canonical_def cleaned_columns_def numeric_cols_def)

lemma canonical_present:
  assumes "concat_frames dfs = Inr u" "translate (rename_columns u) = Inr d5" "convert e d5 = Inr d6"
  shows "\<forall>c\<in>set canonical. count_list (map rename_label (columns u)) c = 1"
proof -
  have wfu: "wf (rename_columns u)" using wf_concat_frames [OF assms(1)] by simp
  note T = translate_shape [OF wfu assms(2)]
  have wf5: "wf d5" using T(1) by (simp add: same_shape_def)
  note C = convert_Inr [OF wf5 assms(3)]
  have "columns d5 = map rename_label (columns u)" using T(1) by (simp add: same_shape_def)
  with T(2,3) C(2) show ?thesis
    by (simp add: canonical_eq required_def)
qed

lemma read_all_eq: "read_all e ps out dfs = (out @ failures e ps, dfs @ successes e ps)"
  by (induction ps arbitrary: out dfs) (auto split: sum.splits)

lemma failures_mem:
  "q \<in> set ps \<Longrightarrow> read_excel e q = Inl ex \<Longrightarrow> WarnSkip q ex \<in> set (failures e ps)"
  by (induction ps) (auto split: sum.splits)

lemma loaded_eq: "loaded e b = successes e (discover e b)"
  by (simp add: loaded_def read_all_eq)

lemma preprocess_reaches_process:
  assumes "loaded e b \<noteq> []"
  shows "preprocess_vehicle_data e b f
     = process e f ([Searching b, Found (length (discover e b))] @ failures e (discover e b)) (loaded e b)"
proof -
  have l: "loaded e b = successes e (discover e b)"
    by (rule loaded_eq)
  with assms have "discover e b \<noteq> []" by auto
  then show ?thesis
    using assms l by (simp add: preprocess_vehicle_data_def read_all_eq Let_def)
qed

lemma printed_process_prefix: "\<exists>more. printed (process e f out dfs) = out @ more"
  by (auto simp: process_def finish_def abort_def Let_def split: sum.splits option.splits)

lemma has_na_set_cell:
  "c \<notin> set subs \<Longrightarrow> has_na subs cols (set_cell cols c v cells) = has_na subs cols cells"
proof (induction cols arbitrary: cells)
  case Nil
  then show ?case by (simp add: has_na_def set_cell_def)
next
  case (Cons l ls)
  show ?case
  proof (cases cells)
    case Nil
    then show ?thesis by (simp add: has_na_def set_cell_def)
  next
    case (Cons x xs)
    have "list_ex (\<lambda>(l, x). l \<in> set subs \<and> x = NA) (zip ls (map (\<lambda>(l, x). if l = c then v else x) (zip ls xs)))
        = list_ex (\<lambda>(l, x). l \<in> set subs \<and> x = NA) (zip ls xs)"
      using Cons.IH [OF Cons.prems, of xs] by (simp add: has_na_def set_cell_def)
    then show ?thesis
      using Cons.prems Cons by (auto simp: has_na_def set_cell_def)
  qed
qed

lemma argsort_by_sorting:
  assumes "mset zs = mset (zip keys [0..<length keys])" "sorted (map fst zs)"
  shows "mset (map snd zs) = mset [0..<length keys] \<and> sorted (map (\<lambda>i. keys ! i) (map snd zs))"
proof -
  have "map snd (zip keys [0..<length keys]) = [0..<length keys]" by simp
  then have "mset [0..<length keys] = image_mset snd (mset (zip keys [0..<length keys]))"
    by (metis mset_map)
  also have "\<dots> = image_mset snd (mset zs)" by (simp only: assms(1))
  also have "\<dots> = mset (map snd zs)" by (simp only: mset_map)
  finally have 1: "mset (map snd zs) = mset [0..<length keys]" by (rule sym)
  have "set zs = set (zip keys [0..<length keys])" using assms(1) by (rule mset_eq_setD)
  then have "\<And>z. z \<in> set zs \<Longrightarrow> keys ! snd z = fst z"
    by (auto simp: in_set_zip)
  then have "map (\<lambda>i. keys ! i) (map snd zs) = map fst zs"
    by (simp add: comp_def cong: map_cong)
  with assms(2) have "sorted (map (\<lambda>i. keys ! i) (map snd zs))" by (simp only:)
  with 1 show ?thesis by (rule conjI)
qed

lemma quick_order: "0 # rev [1..<18] @ [18, 19] = [0, 17, 16, 15, 14, 13, 12, 11, 10, 9, 8, 7, 6, 5, 4, 3, 2, 1, 18, 19::nat]"
  by code_simp

lemma upt_20: "[0..<20] = 0 # [1..<18] @ [18, 19::nat]"
  by code_simp

lemma sorted_map_const: "sorted (map (\<lambda>i. c) xs)"
  by (induction xs) auto

lemma sorts_garage: "sorts garage"
  unfolding sorts_def
proof (intro allI)
  fix keys
  show "mset (argsort garage keys) = mset [0..<length keys] \<and>
      sorted (map (\<lambda>i. keys ! i) (argsort garage keys))"
  proof (cases "length keys = 20 \<and> list_all (\<lambda>k. k = hd keys) keys")
    case True
    then have a: "argsort garage keys = 0 # rev [1..<18] @ [18, 19]"
      by (simp add: garage_def quick_argsort_def)
    have k: "\<And>i. i < 20 \<Longrightarrow> keys ! i = hd keys"
      using True by (simp add: list_all_length)
    have "mset (0 # rev [1..<18] @ [18, 19::nat]) = mset (0 # [1..<18] @ [18, 19])"
      by simp
    then have m: "mset (argsort garage keys) = mset [0..<length keys]"
      using True by (simp only: a upt_20)
    have "\<And>i. i \<in> set (0 # rev [1..<18] @ [18, 19::nat]) \<Longrightarrow> i < 20" by auto
    then have "map (\<lambda>i. keys ! i) (0 # rev [1..<18] @ [18, 19]) = map (\<lambda>i. hd keys) (0 # rev [1..<18] @ [18, 19])"
      using k by (intro map_cong) auto
    then have "sorted (map (\<lambda>i. keys ! i) (argsort garage keys))"
      by (simp only: a sorted_map_const)
    with m show ?thesis ..
  next
    case False
    then have "argsort garage keys = map snd (sort_key fst (zip keys [0..<length keys]))"
      by (auto simp: garage_def quick_argsort_def stable_argsort_def)
    then show ?thesis
      using argsort_by_sorting [of "sort_key fst (zip keys [0..<length keys])" keys] by simp
  qed
qed

lemma trip_written:
  "written (preprocess_vehicle_data garage ''Data/Vehicle 1'' ''out.parquet'')
     = Some (''out.parquet'', trip_table)"
  by code_simp

lemma commute_written:
  "written (preprocess_vehicle_data garage ''Data/Vehicle 2'' ''out.parquet'')
     = Some (''out.parquet'', commute_table)"
  by code_simp

lemma flags_written:
  "written (preprocess_vehicle_data garage ''Data/Vehicle 7'' ''out.parquet'')
     = Some (''out.parquet'', flags_table)"
  by code_simp

lemma convoy_written:
  "written (preprocess_vehicle_data garage ''Data/Vehicle 8'' ''out.parquet'')
     = Some (''out.parquet'', convoy_table)"
  by code_simp

lemma tour_written:
  "written (preprocess_vehicle_data garage ''Data/Vehicle 3'' ''out.parquet'')
     = Some (''out.parquet'', tour_table)"
  by code_simp

lemma sequenced:
  assumes "sorts e"
    and "written (preprocess_vehicle_data e b f) = Some (f', t)"
  obtains u d5 d6 d7 where
    "concat_frames (loaded e b) = Inr u" "translate (rename_columns u) = Inr d5"
    "wf (rename_columns u)" "wf d5" "convert e d5 = Inr d6" "dropna required d6 = Inr d7"
    "fst t = columns d7"
    "snd t = map (\<lambda>i. snd (rows d7 ! i)) (argsort e (map stamp_of (column d7 ''record_time'')))"
    "mset (snd t) = mset (map snd (rows d7))"
    "\<And>c. tcolumn t c
        = map (\<lambda>i. column d7 c ! i) (argsort e (map stamp_of (column d7 ''record_time'')))"
proof -
  from stages [OF assms(2)] obtain u d5 d6 d7 d8 where
    u: "concat_frames (loaded e b) = Inr u" and
    t5: "translate (rename_columns u) = Inr d5" and
    c6: "convert e d5 = Inr d6" and
    d7: "dropna required d6 = Inr d7" and
    s8: "sort_values e ''record_time'' d7 = Inr d8" and
    t: "t = to_table d8"
    by auto
  have wfu: "wf (rename_columns u)" using wf_concat_frames [OF u] by simp
  have wf5: "wf d5" using translate_shape(1) [OF wfu t5] by (simp add: same_shape_def)
  let ?col = "column d7 ''record_time''"
  let ?p = "argsort e (map stamp_of ?col)"
  have "\<And>v. v \<in> set ?col \<Longrightarrow> is_stamp v"
    using survivors(1) [OF wf5 c6 d7] by (auto simp: column_def)
  from this [of NA] have "NA \<notin> set ?col" by auto
  note S = sorted_rows [OF assms(1) this s8]
  have p: "set ?p = {0..<length (rows d7)}"
    using sorts_set [OF assms(1), of "map stamp_of ?col"] by simp
  have 1: "fst t = columns d7" by (simp add: t to_table_def S(2))
  have 2: "snd t = map (\<lambda>i. snd (rows d7 ! i)) ?p" by (simp add: t to_table_def S(1))
  have 3: "mset (snd t) = mset (map snd (rows d7))"
    using S(3) by (simp add: t to_table_def)
  have 4: "tcolumn t c = map (\<lambda>i. column d7 c ! i) ?p" for c
    using p by (auto simp: t tcolumn_to_table column_def S(1,2))
  from u t5 wfu wf5 c6 d7 1 2 3 4 show ?thesis by (rule that)
qed

lemma written_cells:
  assumes "fst t = columns d7" "mset (snd t) = mset (map snd (rows d7))"
    and "x \<in> set (tcolumn t c)"
  obtains r where "r \<in> set (rows d7)" "x = lookup (columns d7) (snd r) c"
proof -
  have "set (snd t) = set (map snd (rows d7))" using assms(2) by (rule mset_eq_setD)
  with assms(1,3) show ?thesis by (auto simp: tcolumn_def intro: that)
qed

section \<open>The claims\<close>

text \<open>
  C1, as amended. For every run that reaches the output stage, the number of rows
  written equals the number of rows of the unified table minus the number of rows
  that the required-field filter drops (the rows of the converted frame with a missing
  value under a required label), and every written row has a non-missing value under
  each required label: a parsed timestamp in \<open>record_time\<close>, and in a numeric column
  a parsed number, except that a source column of nothing but booleans is written as
  booleans, \<open>to_numeric\<close> returning such a column as it is.
\<close>

theorem output_rows_counted_and_typed:
  assumes "sorts e"
    and "written (preprocess_vehicle_data e base_path output_filename) = Some (f, t)"
  shows "\<exists>u typed. concat_frames (loaded e base_path) = Inr u \<and> normalize e u = Inr typed \<and>
      length (snd t) + length (filter (\<lambda>r. has_na required (columns typed) (snd r)) (rows typed))
        = length (rows u) \<and>
      list_all is_stamp (tcolumn t ''record_time'') \<and>
      (\<forall>c\<in>set numeric_cols.
         if list_all is_flag (column (rename_columns u) c)
         then list_all is_flag (tcolumn t c)
         else list_all is_number (tcolumn t c))"
proof (rule sequenced [OF assms])
  fix u d5 d6 d7
  assume u: "concat_frames (loaded e base_path) = Inr u"
    and t5: "translate (rename_columns u) = Inr d5"
    and wfu: "wf (rename_columns u)" and wf5: "wf d5"
    and c6: "convert e d5 = Inr d6"
    and d7: "dropna required d6 = Inr d7"
    and cols: "fst t = columns d7"
    and rows: "snd t = map (\<lambda>i. snd (rows d7 ! i))
                     (argsort e (map stamp_of (column d7 ''record_time'')))"
    and ms: "mset (snd t) = mset (map snd (rows d7))"
    and tc: "\<And>c. tcolumn t c
        = map (\<lambda>i. column d7 c ! i) (argsort e (map stamp_of (column d7 ''record_time'')))"
  note T = translate_shape [OF wfu t5]
  note C = convert_Inr [OF wf5 c6]
  have n6: "length (rows d6) = length (rows u)"
    using T(1) C(1) by (simp add: same_shape_def)
  have norm: "normalize e u = Inr d6" by (simp add: normalize_def t5 c6)
  have d7_eq: "d7 = d6\<lparr>rows := filter (\<lambda>r. \<not> has_na required (columns d6) (snd r)) (rows d6)\<rparr>"
    using d7 by (simp add: dropna_Inr)
  have cnt: "length (rows d7) + length (filter (\<lambda>r. has_na required (columns d6) (snd r)) (rows d6))
      = length (rows d6)"
    using sum_length_filter_compl [of "\<lambda>r. has_na required (columns d6) (snd r)" "rows d6"]
    by (simp add: d7_eq add.commute)
  have len: "length (snd t) = length (rows d7)"
    using ms by (metis size_mset length_map)
  have st: "list_all is_stamp (tcolumn t ''record_time'')"
    unfolding list_all_iff
  proof
    fix x assume "x \<in> set (tcolumn t ''record_time'')"
    from written_cells [OF cols ms this] obtain r where
      "r \<in> set (rows d7)" "x = lookup (columns d7) (snd r) ''record_time''" .
    then show "is_stamp x" using survivors(1) [OF wf5 c6 d7] by simp
  qed
  have num: "if list_all is_flag (column (rename_columns u) c)
         then list_all is_flag (tcolumn t c) else list_all is_number (tcolumn t c)"
    if c: "c \<in> set numeric_cols" for c
  proof -
    have "c \<noteq> ''vehicle_state''" "c \<noteq> ''charge_state''"
      using c by (auto simp: numeric_cols_def)
    then have raw: "column d5 c = column (rename_columns u) c" by (rule T(4))
    have "if list_all is_flag (column d5 c) then is_flag x else is_number x"
      if "x \<in> set (tcolumn t c)" for x
    proof -
      from written_cells [OF cols ms that] obtain r where
        "r \<in> set (rows d7)" "x = lookup (columns d7) (snd r) c" .
      then show ?thesis using survivors(2) [OF wf5 c6 d7 _ c] by simp
    qed
    then show ?thesis by (auto simp: raw list_all_iff)
  qed
  from u norm cnt n6 len st num show ?thesis by auto
qed

theorem output_rows_counted_and_typed_witness:
  "sorts garage \<and>
   written (preprocess_vehicle_data garage ''Data/Vehicle 2'' ''out.parquet'')
     = Some (''out.parquet'', commute_table) \<and>
   length (snd commute_table) = 3 \<and>
   (\<exists>u typed. concat_frames (loaded garage ''Data/Vehicle 2'') = Inr u \<and>
      normalize garage u = Inr typed \<and>
      length (snd commute_table)
        + length (filter (\<lambda>r. has_na required (columns typed) (snd r)) (rows typed))
        = length (rows u) \<and>
      list_all is_stamp (tcolumn commute_table ''record_time'') \<and>
      (\<forall>c\<in>set numeric_cols.
         if list_all is_flag (column (rename_columns u) c)
         then list_all is_flag (tcolumn commute_table c)
         else list_all is_number (tcolumn commute_table c)))"
proof -
  have n: "length (snd commute_table) = 3" by (simp add: commute_table_def)
  from output_rows_counted_and_typed [OF sorts_garage commute_written] sorts_garage
    commute_written n
  show ?thesis by blast
qed

text \<open>
  The claim as stated fails: in a file whose \<open>pack_voltage\<close> cells are booleans the
  column is not parsed; the two rows are written with the booleans in it.
\<close>

theorem boolean_column_is_written_unparsed:
  "loaded garage ''Data/Vehicle 7'' = [flags] \<and>
   column flags ''pack_voltage(V)'' = [Flag True, Flag False] \<and>
   written (preprocess_vehicle_data garage ''Data/Vehicle 7'' ''out.parquet'')
     = Some (''out.parquet'', flags_table) \<and>
   tcolumn flags_table ''record_time'' = [Stamp 100, Stamp 200] \<and>
   tcolumn flags_table ''pack_voltage'' = [Flag False, Flag True] \<and>
   \<not> list_all is_number (tcolumn flags_table ''pack_voltage'')"
proof -
  have 1: "loaded garage ''Data/Vehicle 7'' = [flags]" by code_simp
  have 2: "column flags ''pack_voltage(V)'' = [Flag True, Flag False]" by code_simp
  have 3: "tcolumn flags_table ''record_time'' = [Stamp 100, Stamp 200]" by code_simp
  have 4: "tcolumn flags_table ''pack_voltage'' = [Flag False, Flag True]" by code_simp
  then have 5: "\<not> list_all is_number (tcolumn flags_table ''pack_voltage'')" by simp
  from 1 2 flags_written 3 4 5 show ?thesis by blast
qed

text \<open>
  C2. For every run that writes an output, the \<open>record_time\<close> column of the written
  table holds timestamps only, and they are non-decreasing from the first row to the
  last.
\<close>

theorem output_record_time_nondecreasing:
  assumes "sorts e"
    and "written (preprocess_vehicle_data e base_path output_filename) = Some (f, t)"
  shows "list_all is_stamp (tcolumn t ''record_time'') \<and>
         sorted (map stamp_of (tcolumn t ''record_time''))"
proof (rule sequenced [OF assms])
  fix u d5 d6 d7
  assume u: "concat_frames (loaded e base_path) = Inr u"
    and t5: "translate (rename_columns u) = Inr d5"
    and wfu: "wf (rename_columns u)" and wf5: "wf d5"
    and c6: "convert e d5 = Inr d6"
    and d7: "dropna required d6 = Inr d7"
    and cols: "fst t = columns d7"
    and rows: "snd t = map (\<lambda>i. snd (rows d7 ! i))
                     (argsort e (map stamp_of (column d7 ''record_time'')))"
    and ms: "mset (snd t) = mset (map snd (rows d7))"
    and tc: "\<And>c. tcolumn t c
        = map (\<lambda>i. column d7 c ! i) (argsort e (map stamp_of (column d7 ''record_time'')))"
  let ?col = "column d7 ''record_time''"
  let ?p = "argsort e (map stamp_of ?col)"
  have a: "list_all is_stamp (tcolumn t ''record_time'')"
    unfolding list_all_iff
  proof
    fix x assume "x \<in> set (tcolumn t ''record_time'')"
    from written_cells [OF cols ms this] obtain r where
      "r \<in> set (rows d7)" "x = lookup (columns d7) (snd r) ''record_time''" .
    then show "is_stamp x" using survivors(1) [OF wf5 c6 d7] by simp
  qed
  have p: "set ?p = {0..<length (rows d7)}"
    using sorts_set [OF assms(1), of "map stamp_of ?col"] by simp
  have "map stamp_of (tcolumn t ''record_time'') = map (\<lambda>i. map stamp_of ?col ! i) ?p"
    using p by (simp add: tc)
  moreover have "sorted (map (\<lambda>i. map stamp_of ?col ! i) ?p)"
    using assms(1) by (simp add: sorts_def)
  ultimately have "sorted (map stamp_of (tcolumn t ''record_time''))" by simp
  with a show ?thesis ..
qed

theorem output_record_time_nondecreasing_witness:
  "sorts garage \<and>
   written (preprocess_vehicle_data garage ''Data/Vehicle 2'' ''out.parquet'')
     = Some (''out.parquet'', commute_table) \<and>
   tcolumn commute_table ''record_time'' = [Stamp 100, Stamp 100, Stamp 300] \<and>
   list_all is_stamp (tcolumn commute_table ''record_time'') \<and>
   sorted (map stamp_of (tcolumn commute_table ''record_time''))"
proof -
  have c: "tcolumn commute_table ''record_time'' = [Stamp 100, Stamp 100, Stamp 300]"
    by code_simp
  from output_record_time_nondecreasing [OF sorts_garage commute_written] sorts_garage
    commute_written c
  show ?thesis by blast
qed

text \<open>
  C3, as amended. A raw \<open>vehicle_state\<close> or \<open>charge_state\<close> value that is no key of
  the lookup table (a string that is no key, or a value that is no string) is
  translated to the missing value, the same marker for all of them; the code has no
  label "unknown". The raw value for "vehicle started" gives "Vehicle Start". The
  translation of a column that is there never raises.
\<close>

theorem unmapped_value_becomes_missing:
  assumes "\<forall>s. v = Text s \<longrightarrow> map_of d s = None"
  shows "map_value d v = NA \<and>
         map_value vehicle_state_map (Text started) = Text ''Vehicle Start'' \<and>
         (wf df \<and> count_list (columns df) c = 1 \<longrightarrow>
            (\<exists>df'. translate_column c d df = Inr df' \<and>
                   column df' c = map (map_value d) (column df c)))"
proof -
  have 1: "map_value d v = NA"
    using assms by (cases v) (auto simp: map_value_def)
  have 2: "map_value vehicle_state_map (Text started) = Text ''Vehicle Start''"
    by (simp add: map_value_def vehicle_state_map_def started_def)
  have 3: "\<exists>df'. translate_column c d df = Inr df' \<and> column df' c = map (map_value d) (column df c)"
    if "wf df" "count_list (columns df) c = 1"
  proof -
    let ?df' = "setitem df c (series_map d (column df c))"
    have t: "translate_column c d df = Inr ?df'"
      using that(2) by (simp add: translate_column_Inr)
    have "column ?df' c = map (map_value d) (column df c)"
      using translate_column_shape(2) [OF that(1) t, of c] by (simp add: series_map_def)
    with t show ?thesis by blast
  qed
  from 1 2 3 show ?thesis by blast
qed

theorem unmapped_value_becomes_missing_witness:
  "map_of vehicle_state_map ''crank'' = None \<and>
   map_value vehicle_state_map (Text ''crank'') = NA \<and>
   map_value vehicle_state_map (Text started) = Text ''Vehicle Start'' \<and>
   wf (rename_columns trip) \<and>
   count_list (columns (rename_columns trip)) ''vehicle_state'' = 1 \<and>
   (\<exists>df'. translate_column ''vehicle_state'' vehicle_state_map (rename_columns trip) = Inr df' \<and>
      column df' ''vehicle_state'' = [Text ''Vehicle Start'', NA, NA])"
proof -
  have h: "\<forall>s. Text ''crank'' = Text s \<longrightarrow> map_of vehicle_state_map s = None"
    by (simp add: vehicle_state_map_def)
  have k: "map_of vehicle_state_map ''crank'' = None"
    by (simp add: vehicle_state_map_def)
  have w: "wf (rename_columns trip)" by code_simp
  have c: "count_list (columns (rename_columns trip)) ''vehicle_state'' = 1" by code_simp
  have m: "map (map_value vehicle_state_map) (column (rename_columns trip) ''vehicle_state'')
      = [Text ''Vehicle Start'', NA, NA]"
    by code_simp
  from unmapped_value_becomes_missing
    [OF h, of "rename_columns trip" "''vehicle_state''"] k w c m
  show ?thesis by auto
qed

text \<open>
  The claim as stated fails: the translation of an unmapped value is the missing value,
  not the label "unknown".
\<close>

theorem unmapped_state_is_not_labelled_unknown:
  "series_map vehicle_state_map [Text ''crank'', Text started] = [NA, Text ''Vehicle Start''] \<and>
   series_map vehicle_state_map [Text ''crank'', Text started]
     \<noteq> [Text ''unknown'', Text ''Vehicle Start'']"
  by (simp add: series_map_def map_value_def vehicle_state_map_def started_def)

text \<open>
  C4, as amended. The Sequencer writes the surviving rows permuted into ascending
  \<open>record_time\<close> order. The code calls \<open>sort_values\<close> with its default \<open>kind\<close> and
  asks for no stable sort: rows with equal \<open>record_time\<close> are written in the order in
  which the library's routine returns them, which need not be their order before the
  sort. The order written is the one that routine returns for the \<open>record_time\<close>
  values of the surviving rows, so repeated runs on unchanged input write the same
  output.
\<close>

theorem written_order_is_the_sorting_routines:
  assumes "sorts e"
    and "written (preprocess_vehicle_data e base_path output_filename) = Some (f, t)"
  shows "\<exists>d7. surviving e base_path = Inr d7 \<and> fst t = columns d7 \<and>
           snd t = map (\<lambda>i. snd (rows d7 ! i))
                     (argsort e (map stamp_of (column d7 ''record_time''))) \<and>
           mset (snd t) = mset (map snd (rows d7)) \<and>
           sorted (map stamp_of (tcolumn t ''record_time''))"
proof (rule sequenced [OF assms])
  fix u d5 d6 d7
  assume u: "concat_frames (loaded e base_path) = Inr u"
    and t5: "translate (rename_columns u) = Inr d5"
    and wfu: "wf (rename_columns u)" and wf5: "wf d5"
    and c6: "convert e d5 = Inr d6"
    and d7: "dropna required d6 = Inr d7"
    and cols: "fst t = columns d7"
    and rows: "snd t = map (\<lambda>i. snd (rows d7 ! i))
                     (argsort e (map stamp_of (column d7 ''record_time'')))"
    and ms: "mset (snd t) = mset (map snd (rows d7))"
    and tc: "\<And>c. tcolumn t c
        = map (\<lambda>i. column d7 c ! i) (argsort e (map stamp_of (column d7 ''record_time'')))"
  let ?col = "column d7 ''record_time''"
  let ?p = "argsort e (map stamp_of ?col)"
  have surv: "surviving e base_path = Inr d7"
    by (simp add: surviving_def u normalize_def t5 c6 d7)
  have p: "set ?p = {0..<length (rows d7)}"
    using sorts_set [OF assms(1), of "map stamp_of ?col"] by simp
  have "map stamp_of (tcolumn t ''record_time'') = map (\<lambda>i. map stamp_of ?col ! i) ?p"
    using p by (simp add: tc)
  moreover have "sorted (map (\<lambda>i. map stamp_of ?col ! i) ?p)"
    using assms(1) by (simp add: sorts_def)
  ultimately have "sorted (map stamp_of (tcolumn t ''record_time''))" by simp
  with surv cols rows ms show ?thesis by blast
qed

theorem written_order_is_the_sorting_routines_witness:
  "sorts garage \<and>
   written (preprocess_vehicle_data garage ''Data/Vehicle 2'' ''out.parquet'')
     = Some (''out.parquet'', commute_table) \<and>
   map stamp_of (tcolumn commute_table ''record_time'') = [100, 100, 300] \<and>
   (\<exists>d7. surviving garage ''Data/Vehicle 2'' = Inr d7 \<and> fst commute_table = columns d7 \<and>
      snd commute_table = map (\<lambda>i. snd (rows d7 ! i))
                     (argsort garage (map stamp_of (column d7 ''record_time''))) \<and>
      mset (snd commute_table) = mset (map snd (rows d7)) \<and>
      sorted (map stamp_of (tcolumn commute_table ''record_time'')))"
proof -
  have c: "map stamp_of (tcolumn commute_table ''record_time'') = [100, 100, 300]"
    by code_simp
  from written_order_is_the_sorting_routines [OF sorts_garage commute_written]
    sorts_garage commute_written c
  show ?thesis by blast
qed

text \<open>
  The claim as stated fails: twenty surviving rows with one and the same
  \<open>record_time\<close>, with voltages 1 to 20 in this order before the sort, are written in
  the order 1, 18, 17, down to 2, 19, 20, the order in which the quicksort returns
  twenty equal keys.
\<close>

theorem quicksort_reorders_equal_times:
  "(case surviving garage ''Data/Vehicle 8'' of
      Inl ex \<Rightarrow> False
    | Inr d7 \<Rightarrow>
        column d7 ''record_time'' = replicate 20 (Stamp 100) \<and>
        column d7 ''pack_voltage'' = map (\<lambda>i. Number (Finite (real i))) [1..<21]) \<and>
   written (preprocess_vehicle_data garage ''Data/Vehicle 8'' ''out.parquet'')
     = Some (''out.parquet'', convoy_table) \<and>
   tcolumn convoy_table ''record_time'' = replicate 20 (Stamp 100) \<and>
   tcolumn convoy_table ''pack_voltage''
     = map (\<lambda>i. Number (Finite (real i)))
         [1, 18, 17, 16, 15, 14, 13, 12, 11, 10, 9, 8, 7, 6, 5, 4, 3, 2, 19, 20]"
proof -
  have 1: "(case surviving garage ''Data/Vehicle 8'' of
      Inl ex \<Rightarrow> False
    | Inr d7 \<Rightarrow>
        column d7 ''record_time'' = replicate 20 (Stamp 100) \<and>
        column d7 ''pack_voltage'' = map (\<lambda>i. Number (Finite (real i))) [1..<21])"
    by code_simp
  have 2: "tcolumn convoy_table ''record_time'' = replicate 20 (Stamp 100)"
    by code_simp
  have 3: "tcolumn convoy_table ''pack_voltage''
     = map (\<lambda>i. Number (Finite (real i)))
         [1, 18, 17, 16, 15, 14, 13, 12, 11, 10, 9, 8, 7, 6, 5, 4, 3, 2, 19, 20]"
    by code_simp
  from 1 convoy_written 2 3 show ?thesis by blast
qed

text \<open>
  C5, as amended. For every run that writes an output, the written file has each of
  the ten canonical columns exactly once, and with them every other column of the
  unified table: its labels are the labels of the unified table after the rename, none
  is removed.
\<close>

theorem output_keeps_every_column:
  assumes "written (preprocess_vehicle_data e base_path output_filename) = Some (f, t)"
  shows "\<exists>u. concat_frames (loaded e base_path) = Inr u \<and>
           fst t = map rename_label (columns u) \<and>
           (\<forall>c\<in>set canonical. count_list (fst t) c = 1)"
proof -
  from stages [OF assms] obtain u d5 d6 d7 d8 where
    u: "concat_frames (loaded e base_path) = Inr u" and
    t5: "translate (rename_columns u) = Inr d5" and
    c6: "convert e d5 = Inr d6" and
    d7: "dropna required d6 = Inr d7" and
    s8: "sort_values e ''record_time'' d7 = Inr d8" and
    t: "t = to_table d8"
    by auto
  have wfu: "wf (rename_columns u)" using wf_concat_frames [OF u] by simp
  note T = translate_shape [OF wfu t5]
  have wf5: "wf d5" using T(1) by (simp add: same_shape_def)
  note C = convert_Inr [OF wf5 c6]
  have "columns d8 = columns d7" using s8 by (auto simp: sort_values_Inr)
  moreover have "columns d7 = columns d6" using d7 by (auto simp: dropna_Inr)
  ultimately have "fst t = map rename_label (columns u)"
    using T(1) C(1) by (simp add: t to_table_def same_shape_def)
  with canonical_present [OF u t5 c6] u show ?thesis by auto
qed

theorem output_keeps_every_column_witness:
  "written (preprocess_vehicle_data garage ''Data/Vehicle 3'' ''out.parquet'')
     = Some (''out.parquet'', tour_table) \<and>
   (\<exists>u. concat_frames (loaded garage ''Data/Vehicle 3'') = Inr u \<and>
      fst tour_table = map rename_label (columns u) \<and>
      (\<forall>c\<in>set canonical. count_list (fst tour_table) c = 1))"
proof -
  from output_keeps_every_column [OF tour_written] tour_written
  show ?thesis by blast
qed

text \<open>
  The claim as stated fails: a source file with an eleventh column gives an output with
  eleven columns.
\<close>

theorem unmapped_column_is_written:
  "written (preprocess_vehicle_data garage ''Data/Vehicle 3'' ''out.parquet'')
     = Some (''out.parquet'', tour_table) \<and>
   fst tour_table = canonical @ [''odometer(km)''] \<and>
   length canonical = 10 \<and>
   length (fst tour_table) = 11"
proof -
  have "fst tour_table = canonical @ [''odometer(km)'']" by (simp add: tour_table_def)
  moreover have "length canonical = 10" by (simp add: canonical_def cleaned_columns_def)
  ultimately show ?thesis using tour_written by simp
qed

text \<open>
  C6. When the Discoverer finds no source file, the run prints the search line and the
  "no files found" error and returns; when files are found and none of them loads, it
  prints the search line, the count, one warning per file and the "no dataframes"
  error and returns. In both cases nothing later is printed, nothing is written and
  nothing is raised.
\<close>

theorem no_input_halts_without_output:
  "(discover e base_path = [] \<longrightarrow>
      preprocess_vehicle_data e base_path output_filename
        = \<lparr>printed = [Searching base_path, ErrNoFiles], written = None, raised = None\<rparr>) \<and>
   (discover e base_path \<noteq> [] \<and> loaded e base_path = [] \<longrightarrow>
      preprocess_vehicle_data e base_path output_filename
        = \<lparr>printed = [Searching base_path, Found (length (discover e base_path))]
                      @ failures e (discover e base_path) @ [ErrNoDataframes],
           written = None, raised = None\<rparr>)"
  by (simp add: preprocess_vehicle_data_def halt_def loaded_eq read_all_eq Let_def)

theorem no_input_halts_without_output_witness:
  "discover garage ''Data/Vehicle 6'' = [] \<and>
   preprocess_vehicle_data garage ''Data/Vehicle 6'' ''out.parquet''
     = \<lparr>printed = [Searching ''Data/Vehicle 6'', ErrNoFiles], written = None, raised = None\<rparr> \<and>
   discover garage ''Data/Vehicle 5'' = [''Data/Vehicle 5/broken.xlsx''] \<and>
   loaded garage ''Data/Vehicle 5'' = [] \<and>
   preprocess_vehicle_data garage ''Data/Vehicle 5'' ''out.parquet''
     = \<lparr>printed = [Searching ''Data/Vehicle 5'', Found 1,
                    WarnSkip ''Data/Vehicle 5/broken.xlsx''
                      (LibraryError ''File is not a zip file''),
                    ErrNoDataframes],
        written = None, raised = None\<rparr>"
proof -
  have a: "discover garage ''Data/Vehicle 6'' = []" by code_simp
  have b: "discover garage ''Data/Vehicle 5'' = [''Data/Vehicle 5/broken.xlsx'']" by code_simp
  have c: "loaded garage ''Data/Vehicle 5'' = []" by code_simp
  have d: "failures garage [''Data/Vehicle 5/broken.xlsx'']
      = [WarnSkip ''Data/Vehicle 5/broken.xlsx'' (LibraryError ''File is not a zip file'')]"
    by code_simp
  from no_input_halts_without_output [of garage "''Data/Vehicle 6''" "''out.parquet''"]
    no_input_halts_without_output [of garage "''Data/Vehicle 5''" "''out.parquet''"]
    a b c d
  show ?thesis by simp
qed

text \<open>
  C7. A discovered file whose load fails is reported by a warning with its path and
  the exception, and is skipped: the frames of the run are those of the files that
  load, in order, and the run goes on with them. With one file of three valid rows and
  one file that fails to load, the run completes and writes three rows.
\<close>

theorem failed_file_is_skipped:
  assumes "read_excel e q = Inl ex" "q \<in> set (discover e base_path)"
  shows "WarnSkip q ex \<in> set (printed (preprocess_vehicle_data e base_path output_filename)) \<and>
         loaded e base_path = successes e (discover e base_path) \<and>
         (loaded e base_path \<noteq> [] \<longrightarrow>
            (\<exists>out. preprocess_vehicle_data e base_path output_filename
                      = process e output_filename out (loaded e base_path)))"
proof -
  let ?files = "discover e base_path"
  have w: "WarnSkip q ex \<in> set (failures e ?files)"
    using assms by (simp add: failures_mem)
  have l: "loaded e base_path = successes e ?files"
    by (rule loaded_eq)
  have files: "?files \<noteq> []" using assms(2) by auto
  have "WarnSkip q ex \<in> set (printed (preprocess_vehicle_data e base_path output_filename))"
  proof (cases "loaded e base_path = []")
    case True
    then show ?thesis
      using files w l by (simp add: preprocess_vehicle_data_def read_all_eq halt_def Let_def)
  next
    case False
    from printed_process_prefix obtain more where
      "printed (process e output_filename
          ([Searching base_path, Found (length ?files)] @ failures e ?files) (loaded e base_path))
        = ([Searching base_path, Found (length ?files)] @ failures e ?files) @ more"
      by blast
    then show ?thesis
      using w by (simp add: preprocess_reaches_process [OF False])
  qed
  then show ?thesis
    using l preprocess_reaches_process by blast
qed

theorem failed_file_is_skipped_witness:
  "read_excel garage ''Data/Vehicle 1/March/day2.xlsx''
     = Inl (LibraryError ''File is not a zip file'') \<and>
   discover garage ''Data/Vehicle 1''
     = [''Data/Vehicle 1/March/day1.xlsx'', ''Data/Vehicle 1/March/day2.xlsx''] \<and>
   WarnSkip ''Data/Vehicle 1/March/day2.xlsx'' (LibraryError ''File is not a zip file'')
     \<in> set (printed (preprocess_vehicle_data garage ''Data/Vehicle 1'' ''out.parquet'')) \<and>
   loaded garage ''Data/Vehicle 1'' = [trip] \<and>
   length (rows trip) = 3 \<and>
   raised (preprocess_vehicle_data garage ''Data/Vehicle 1'' ''out.parquet'') = None \<and>
   written (preprocess_vehicle_data garage ''Data/Vehicle 1'' ''out.parquet'')
     = Some (''out.parquet'', trip_table) \<and>
   length (snd trip_table) = 3"
proof -
  have r: "read_excel garage ''Data/Vehicle 1/March/day2.xlsx''
     = Inl (LibraryError ''File is not a zip file'')"
    by (simp add: garage_def)
  have d: "discover garage ''Data/Vehicle 1''
     = [''Data/Vehicle 1/March/day1.xlsx'', ''Data/Vehicle 1/March/day2.xlsx'']"
    by code_simp
  have m: "''Data/Vehicle 1/March/day2.xlsx'' \<in> set (discover garage ''Data/Vehicle 1'')"
    by (simp add: d)
  have s: "successes garage [''Data/Vehicle 1/March/day1.xlsx'', ''Data/Vehicle 1/March/day2.xlsx'']
      = [trip]"
    by (simp add: garage_def)
  have n: "length (rows trip) = 3" "length (snd trip_table) = 3"
    by (simp_all add: trip_def trip_table_def)
  have x: "raised (preprocess_vehicle_data garage ''Data/Vehicle 1'' ''out.parquet'') = None"
    by code_simp
  from failed_file_is_skipped [OF r m, of "''out.parquet''"] r d s n x trip_written
  show ?thesis by simp
qed




text \<open>
  C9. When the unified table, after the rename, lacks one of the ten canonical columns,
  the Normalizer raises, the exception leaves the function uncaught, and no output is
  written.
\<close>

theorem missing_canonical_column_aborts:
  assumes "loaded e base_path \<noteq> []"
    and "concat_frames (loaded e base_path) = Inr u"
    and "c \<in> set canonical" "c \<notin> set (map rename_label (columns u))"
  shows "raised (preprocess_vehicle_data e base_path output_filename) \<noteq> None \<and>
         written (preprocess_vehicle_data e base_path output_filename) = None"
proof -
  let ?run = "preprocess_vehicle_data e base_path output_filename"
  have nw: "written ?run = None"
  proof (rule ccontr)
    assume "written ?run \<noteq> None"
    then obtain w where "written ?run = Some w" by auto
    from stages [OF this] assms(2) obtain d5 d6 where
      "translate (rename_columns u) = Inr d5" "convert e d5 = Inr d6"
      by auto
    from canonical_present [OF assms(2) this] assms(3)
    have "count_list (map rename_label (columns u)) c = 1" by blast
    then have "c \<in> set (map rename_label (columns u))" by (rule count_list_1_mem)
    with assms(4) show False by contradiction
  qed
  moreover have "raised ?run \<noteq> None"
    using nw process_raised [of e output_filename _ "loaded e base_path"]
    by (simp add: preprocess_reaches_process [OF assms(1)])
  ultimately show ?thesis by blast
qed

theorem missing_canonical_column_aborts_witness:
  "loaded garage ''Data/Vehicle 4'' = [shed] \<and>
   concat_frames (loaded garage ''Data/Vehicle 4'') = Inr shed \<and>
   ''charge_state'' \<in> set canonical \<and>
   ''charge_state'' \<notin> set (map rename_label (columns shed)) \<and>
   raised (preprocess_vehicle_data garage ''Data/Vehicle 4'' ''out.parquet'')
     = Some (KeyError [''charge_state'']) \<and>
   raised (preprocess_vehicle_data garage ''Data/Vehicle 4'' ''out.parquet'') \<noteq> None \<and>
   written (preprocess_vehicle_data garage ''Data/Vehicle 4'' ''out.parquet'') = None"
proof -
  have l: "loaded garage ''Data/Vehicle 4'' = [shed]" by code_simp
  then have n: "loaded garage ''Data/Vehicle 4'' \<noteq> []" by simp
  have u: "concat_frames (loaded garage ''Data/Vehicle 4'') = Inr shed" by code_simp
  have c: "''charge_state'' \<in> set canonical" by (simp add: canonical_eq)
  have m: "''charge_state'' \<notin> set (map rename_label (columns shed))" by code_simp
  have k: "raised (preprocess_vehicle_data garage ''Data/Vehicle 4'' ''out.parquet'')
     = Some (KeyError [''charge_state''])"
    by code_simp
  from missing_canonical_column_aborts [OF n u c m, of "''out.parquet''"] l u c m k
  show ?thesis by blast
qed

text \<open>
  C10. The required-field filter keeps exactly the rows with no missing value under a
  required label, and it does not look at \<open>vehicle_state\<close> or \<open>charge_state\<close>:
  whatever is stored in those cells, missing or not, the row is dropped or kept alike.
\<close>

theorem filter_ignores_categorical_columns:
  assumes "dropna required df = Inr df'" "r \<in> set (rows df)"
    and "c = ''vehicle_state'' \<or> c = ''charge_state''"
  shows "(r \<in> set (rows df') \<longleftrightarrow> \<not> has_na required (columns df) (snd r)) \<and>
         has_na required (columns df) (set_cell (columns df) c v (snd r))
           = has_na required (columns df) (snd r)"
proof -
  have "c \<notin> set required"
    using assms(3) by (auto simp: required_def numeric_cols_def)
  then have "has_na required (columns df) (set_cell (columns df) c v (snd r))
           = has_na required (columns df) (snd r)"
    by (rule has_na_set_cell)
  moreover have "r \<in> set (rows df') \<longleftrightarrow> \<not> has_na required (columns df) (snd r)"
    using assms(1,2) by (auto simp: dropna_Inr)
  ultimately show ?thesis by blast
qed

theorem filter_ignores_categorical_columns_witness:
  "dropna required logbook
     = Inr (logbook\<lparr>rows := [(0, reading (Stamp 300) NA NA (Number (Finite 350)))]\<rparr>) \<and>
   (0, reading (Stamp 300) NA NA (Number (Finite 350))) \<in> set (rows logbook) \<and>
   lookup (columns logbook) (reading (Stamp 300) NA NA (Number (Finite 350))) ''vehicle_state'' = NA \<and>
   (0, reading (Stamp 300) NA NA (Number (Finite 350)))
     \<in> set (rows (logbook\<lparr>rows := [(0, reading (Stamp 300) NA NA (Number (Finite 350)))]\<rparr>)) \<and>
   has_na required (columns logbook)
      (set_cell (columns logbook) ''vehicle_state'' (Text ''Engine Off'')
         (reading (Stamp 300) NA NA (Number (Finite 350))))
     = has_na required (columns logbook) (reading (Stamp 300) NA NA (Number (Finite 350)))"
proof -
  let ?r = "(0::nat, reading (Stamp 300) NA NA (Number (Finite 350)))"
  let ?kept = "logbook\<lparr>rows := [?r]\<rparr>"
  have d: "dropna required logbook = Inr ?kept" by code_simp
  have r: "?r \<in> set (rows logbook)" by (simp add: logbook_def)
  have v: "lookup (columns logbook) (snd ?r) ''vehicle_state'' = NA" by code_simp
  have c: "''vehicle_state'' = ''vehicle_state'' \<or> ''vehicle_state'' = ''charge_state''" by simp
  from filter_ignores_categorical_columns [OF d r c, of "Text ''Engine Off''"] d r v
  show ?thesis by simp
qed

end
